theory Spec2Isabelle
  imports Complex_Main
begin

section \<open>Numbers and tensors\<close>

text \<open>
  The trainers of \<^verbatim>\<open>begin/algorithms/ewc/graphs.py\<close> compute with PyTorch
  floating-point tensors. A tensor element is modelled by \<open>fl\<close>: a finite value, one of
  the two infinities, or NaN. Finite arithmetic is exact over the rationals (rounding and
  overflow of finite values are not modelled); the special values follow IEEE 754, so
  that a division by zero is a value of the model, as it is a value (and no exception) in
  PyTorch. Signed zeros are not distinguished.
\<close>

datatype fl = Fin rat | PInf | NInf | NaN

fun fl_neg :: "fl \<Rightarrow> fl" where
  "fl_neg (Fin a) = Fin (- a)"
| "fl_neg PInf = NInf"
| "fl_neg NInf = PInf"
| "fl_neg NaN = NaN"

fun fl_add :: "fl \<Rightarrow> fl \<Rightarrow> fl" where
  "fl_add NaN y = NaN"
| "fl_add x NaN = NaN"
| "fl_add (Fin a) (Fin b) = Fin (a + b)"
| "fl_add (Fin a) PInf = PInf"
| "fl_add (Fin a) NInf = NInf"
| "fl_add PInf (Fin b) = PInf"
| "fl_add NInf (Fin b) = NInf"
| "fl_add PInf PInf = PInf"
| "fl_add NInf NInf = NInf"
| "fl_add PInf NInf = NaN"
| "fl_add NInf PInf = NaN"

definition fl_sub :: "fl \<Rightarrow> fl \<Rightarrow> fl" where
  "fl_sub x y = fl_add x (fl_neg y)"

text \<open>The sign of a product or quotient with an infinite operand: \<open>s\<close> is the sign of
  the finite operand (or of a finite divisor), \<open>pos\<close> says whether the infinity is
  positive.\<close>

definition fl_inf :: "bool \<Rightarrow> fl" where
  "fl_inf pos = (if pos then PInf else NInf)"

fun fl_mul :: "fl \<Rightarrow> fl \<Rightarrow> fl" where
  "fl_mul NaN y = NaN"
| "fl_mul x NaN = NaN"
| "fl_mul (Fin a) (Fin b) = Fin (a * b)"
| "fl_mul (Fin a) PInf = (if a = 0 then NaN else fl_inf (0 < a))"
| "fl_mul (Fin a) NInf = (if a = 0 then NaN else fl_inf (a < 0))"
| "fl_mul PInf (Fin b) = (if b = 0 then NaN else fl_inf (0 < b))"
| "fl_mul NInf (Fin b) = (if b = 0 then NaN else fl_inf (b < 0))"
| "fl_mul PInf PInf = PInf"
| "fl_mul NInf NInf = PInf"
| "fl_mul PInf NInf = NInf"
| "fl_mul NInf PInf = NInf"

fun fl_div :: "fl \<Rightarrow> fl \<Rightarrow> fl" where
  "fl_div NaN y = NaN"
| "fl_div x NaN = NaN"
| "fl_div (Fin a) (Fin b) =
     (if b = 0 then (if a = 0 then NaN else fl_inf (0 < a)) else Fin (a / b))"
| "fl_div (Fin a) PInf = Fin 0"
| "fl_div (Fin a) NInf = Fin 0"
| "fl_div PInf (Fin b) = fl_inf (0 \<le> b)"
| "fl_div NInf (Fin b) = fl_inf (b < 0)"
| "fl_div PInf PInf = NaN"
| "fl_div NInf NInf = NaN"
| "fl_div PInf NInf = NaN"
| "fl_div NInf PInf = NaN"

text \<open>A Python \<open>int\<close> operand of a tensor operation is converted to a scalar of the
  tensor's type.\<close>

definition fl_of_nat :: "nat \<Rightarrow> fl" where
  "fl_of_nat n = Fin (of_nat n)"

fun is_Fin :: "fl \<Rightarrow> bool" where
  "is_Fin (Fin a) = True"
| "is_Fin x = False"

fun fl_val :: "fl \<Rightarrow> rat" where
  "fl_val (Fin a) = a"
| "fl_val x = 0"

text \<open>
  A tensor is modelled by the list of its elements (its flattened contents); two tensors
  have the same shape when the lists have the same length. An elementwise operation on
  two tensors of different length is the \<open>RuntimeError\<close> PyTorch raises for shapes that
  do not fit (broadcasting between different shapes is outside the model).
\<close>

type_synonym tensor = "fl list"

datatype error = KeyError string | RuntimeError | External string

definition zeros_like :: "tensor \<Rightarrow> tensor" where
  "zeros_like t = replicate (length t) (Fin 0)"

definition tensor_pow2 :: "tensor \<Rightarrow> tensor" where
  "tensor_pow2 t = map (\<lambda>x. fl_mul x x) t"

definition scalar_mul :: "fl \<Rightarrow> tensor \<Rightarrow> tensor" where
  "scalar_mul c t = map (\<lambda>x. fl_mul c x) t"

definition tensor_mul_int :: "tensor \<Rightarrow> nat \<Rightarrow> tensor" where
  "tensor_mul_int t n = map (\<lambda>x. fl_mul x (fl_of_nat n)) t"

definition tensor_div_int :: "tensor \<Rightarrow> nat \<Rightarrow> tensor" where
  "tensor_div_int t n = map (\<lambda>x. fl_div x (fl_of_nat n)) t"

definition tensor_add :: "tensor \<Rightarrow> tensor \<Rightarrow> error + tensor" where
  "tensor_add s t =
     (if length s = length t then Inr (map2 fl_add s t) else Inl RuntimeError)"

definition tensor_sub :: "tensor \<Rightarrow> tensor \<Rightarrow> error + tensor" where
  "tensor_sub s t =
     (if length s = length t then Inr (map2 fl_sub s t) else Inl RuntimeError)"

definition tensor_mul :: "tensor \<Rightarrow> tensor \<Rightarrow> error + tensor" where
  "tensor_mul s t =
     (if length s = length t then Inr (map2 fl_mul s t) else Inl RuntimeError)"

definition tensor_sum :: "tensor \<Rightarrow> fl" where
  "tensor_sum t = foldl fl_add (Fin 0) t"

section \<open>Data model\<close>

text \<open>
  A model parameter has its value (\<open>p.data\<close>) and, after a backward pass, possibly a
  gradient (\<open>p.grad\<close>, \<open>None\<close> when absent). The live model is the list
  \<open>named_parameters()\<close> yields, in its order. A snapshot or a Fisher estimate is a
  Python \<open>dict\<close> from parameter names to tensors. Every tensor the trainers store is a
  fresh one (\<open>zeros_like\<close>, \<open>clone().detach()\<close>, or in-place arithmetic on those), so
  it shares no storage with a live parameter and is modelled by its value.
\<close>

record param =
  data :: tensor
  grad :: "tensor option"

type_synonym model = "(string \<times> param) list"

type_synonym tdict = "string \<rightharpoonup> tensor"

text \<open>The dictionary \<open>initTrainingStates\<close> returns, with its two keys.\<close>

record training_state =
  fishers :: "tdict list"
  params :: "tdict list"

text \<open>A batch is the triple \<open>(graphs, labels, masks)\<close>; the graphs and masks are only
  handed to the model and stay opaque (\<open>inputs\<close>).\<close>

record 'g batch =
  inputs :: 'g
  labels :: "int list"

text \<open>The dictionary \<open>inference\<close> returns: one row of predictions per item, and the
  loss.\<close>

record results =
  preds :: "tensor list"
  loss :: fl

text \<open>The dictionary \<open>afterInference\<close> returns.\<close>

record step_out =
  out_num_items :: nat
  out_loss :: fl
  out_acc :: fl

text \<open>
  The trainer object \<open>self\<close>: the hyperparameter \<open>lamb\<close> and the collaborators the
  methods call, which the base trainer, the model, the optimizer and PyTorch supply. Each
  may raise, so each returns a sum. \<open>backward\<close> stands for \<open>loss.backward()\<close>, which
  fills in the gradients of the model. \<open>inference\<close> is \<open>self.inference\<close>, dispatched on
  the trainer: for a \<open>GCTaskILEWCTrainer\<close> the method of its own class, which hands the
  task masks to the model, for the other classes the base trainer's.
  \<open>super_processAfterTraining\<close> is the base trainer's hook and \<open>prepareLoader\<close> its
  loader factory (the method uses the first loader it returns, a finite sequence of
  batches). Three collaborators receive the training state; as the specification has it,
  the record is mutated by the trainer's own methods only, so they read it and return no
  new one.
\<close>

record ('g, 'd) trainer =
  lamb :: fl
  inference :: "model \<Rightarrow> 'g batch \<Rightarrow> training_state \<Rightarrow> error + results"
  backward :: "fl \<Rightarrow> model \<Rightarrow> 'g batch \<Rightarrow> training_state \<Rightarrow> error + model"
  zero_grad :: "model \<Rightarrow> model"
  optimizer_step :: "model \<Rightarrow> error + model"
  predictionFormat :: "results \<Rightarrow> error + int list"
  eval_fn :: "int list \<Rightarrow> int list \<Rightarrow> error + fl"
  prepareLoader :: "'d \<Rightarrow> training_state \<Rightarrow> error + 'g batch list"
  super_processAfterTraining :: "nat \<Rightarrow> 'd \<Rightarrow> model \<Rightarrow> training_state \<Rightarrow> error + model"

text \<open>\<open>__init__\<close>: \<open>kwargs['lamb'] if 'lamb' in kwargs else 10000.\<close>\<close>

definition init_lamb :: "fl option \<Rightarrow> fl" where
  "init_lamb kw = (case kw of Some l \<Rightarrow> l | None \<Rightarrow> Fin 10000)"

section \<open>GCTaskILEWCTrainer\<close>

subsection \<open>afterInference\<close>

text \<open>The inner loop over \<open>model.named_parameters()\<close>, for one pair of the history
  (\<open>hparam\<close> and \<open>hfisher\<close> are the source's \<open>_param\<close> and \<open>_fisher\<close>); a name a
  dictionary lacks is a \<open>KeyError\<close>, first for the Fisher estimate, then for the
  snapshot.\<close>

fun GCTaskILEWCTrainer_penalty_params ::
  "fl \<Rightarrow> tdict \<Rightarrow> tdict \<Rightarrow> model \<Rightarrow> fl \<Rightarrow> error + fl" where
  "GCTaskILEWCTrainer_penalty_params lam hparam hfisher [] loss_reg = Inr loss_reg"
| "GCTaskILEWCTrainer_penalty_params lam hparam hfisher ((name, p) # rest) loss_reg =
     (case hfisher name of
        None \<Rightarrow> Inl (KeyError name)
      | Some f \<Rightarrow>
          (case hparam name of
             None \<Rightarrow> Inl (KeyError name)
           | Some s \<Rightarrow>
               (case tensor_sub (data p) s of
                  Inl e \<Rightarrow> Inl e
                | Inr d \<Rightarrow>
                    (case tensor_mul (scalar_mul lam f) (tensor_pow2 d) of
                       Inl e \<Rightarrow> Inl e
                     | Inr l \<Rightarrow>
                         GCTaskILEWCTrainer_penalty_params lam hparam hfisher rest
                           (fl_add loss_reg (tensor_sum l))))))"

text \<open>The outer loop over \<open>zip(training_states['params'], training_states['fishers'])\<close>.\<close>

fun GCTaskILEWCTrainer_penalty_tasks ::
  "fl \<Rightarrow> (tdict \<times> tdict) list \<Rightarrow> model \<Rightarrow> fl \<Rightarrow> error + fl" where
  "GCTaskILEWCTrainer_penalty_tasks lam [] m loss_reg = Inr loss_reg"
| "GCTaskILEWCTrainer_penalty_tasks lam ((hparam, hfisher) # rest) m loss_reg =
     (case GCTaskILEWCTrainer_penalty_params lam hparam hfisher m loss_reg of
        Inl e \<Rightarrow> Inl e
      | Inr r \<Rightarrow> GCTaskILEWCTrainer_penalty_tasks lam rest m r)"

definition GCTaskILEWCTrainer_loss_reg ::
  "('g, 'd) trainer \<Rightarrow> model \<Rightarrow> training_state \<Rightarrow> error + fl" where
  "GCTaskILEWCTrainer_loss_reg self m training_states =
     GCTaskILEWCTrainer_penalty_tasks (lamb self)
       (zip (params training_states) (fishers training_states)) m (Fin 0)"

definition GCTaskILEWCTrainer_total_loss ::
  "('g, 'd) trainer \<Rightarrow> results \<Rightarrow> model \<Rightarrow> training_state \<Rightarrow> error + fl" where
  "GCTaskILEWCTrainer_total_loss self res m training_states =
     (case GCTaskILEWCTrainer_loss_reg self m training_states of
        Inl e \<Rightarrow> Inl e
      | Inr loss_reg \<Rightarrow> Inr (fl_add (loss res) loss_reg))"

text \<open>
  The method returns its dictionary; the model is updated in place by the backward pass
  and the optimizer step, so the updated model is returned with it. The training state is
  the state the caller holds after the call, also when the call raises.
\<close>

definition GCTaskILEWCTrainer_afterInference ::
  "('g, 'd) trainer \<Rightarrow> results \<Rightarrow> model \<Rightarrow> 'g batch \<Rightarrow> training_state
     \<Rightarrow> (error + step_out \<times> model) \<times> training_state" where
  "GCTaskILEWCTrainer_afterInference self res m curr_batch training_states =
     (case GCTaskILEWCTrainer_total_loss self res m training_states of
        Inl e \<Rightarrow> (Inl e, training_states)
      | Inr total_loss \<Rightarrow>
          (case backward self total_loss m curr_batch training_states of
             Inl e \<Rightarrow> (Inl e, training_states)
           | Inr m1 \<Rightarrow>
               (case optimizer_step self m1 of
                  Inl e \<Rightarrow> (Inl e, training_states)
                | Inr m2 \<Rightarrow>
                    (case predictionFormat self res of
                       Inl e \<Rightarrow> (Inl e, training_states)
                     | Inr fmt \<Rightarrow>
                         (case eval_fn self fmt (labels curr_batch) of
                            Inl e \<Rightarrow> (Inl e, training_states)
                          | Inr a \<Rightarrow>
                              (Inr (\<lparr>out_num_items = length (preds res),
                                     out_loss = total_loss, out_acc = a\<rparr>, m2),
                               training_states))))))"

subsection \<open>initTrainingStates\<close>

definition GCTaskILEWCTrainer_initTrainingStates :: training_state where
  "GCTaskILEWCTrainer_initTrainingStates = \<lparr>fishers = [], params = []\<rparr>"

subsection \<open>processAfterTraining\<close>

text \<open>\<open>{name: torch.zeros_like(p) for name, p in curr_model.named_parameters()}\<close>\<close>

fun zeros_dict :: "model \<Rightarrow> tdict \<Rightarrow> tdict" where
  "zeros_dict [] d = d"
| "zeros_dict ((name, p) # rest) d = zeros_dict rest (d(name \<mapsto> zeros_like (data p)))"

text \<open>The loop over the parameters after one batch's backward pass: the snapshot entry is
  overwritten with a copy of the value, and a gradient that is present is accumulated in
  place (reading \<open>fishers[name]\<close> first).\<close>

fun GCTaskILEWCTrainer_accumulate ::
  "model \<Rightarrow> nat \<Rightarrow> tdict \<Rightarrow> tdict \<Rightarrow> error + tdict \<times> tdict" where
  "GCTaskILEWCTrainer_accumulate [] curr_num_items ps fs = Inr (ps, fs)"
| "GCTaskILEWCTrainer_accumulate ((name, p) # rest) curr_num_items ps fs =
     (case grad p of
        None \<Rightarrow>
          GCTaskILEWCTrainer_accumulate rest curr_num_items (ps(name \<mapsto> data p)) fs
      | Some g \<Rightarrow>
          (case fs name of
             None \<Rightarrow> Inl (KeyError name)
           | Some f \<Rightarrow>
               (case tensor_add f (tensor_mul_int (tensor_pow2 g) curr_num_items) of
                  Inl e \<Rightarrow> Inl e
                | Inr f' \<Rightarrow>
                    GCTaskILEWCTrainer_accumulate rest curr_num_items
                      (ps(name \<mapsto> data p)) (fs(name \<mapsto> f')))))"

text \<open>\<open>zero_grad\<close>, \<open>inference\<close> and \<open>backward\<close> on one batch.\<close>

definition GCTaskILEWCTrainer_batch_backward ::
  "('g, 'd) trainer \<Rightarrow> training_state \<Rightarrow> model \<Rightarrow> 'g batch \<Rightarrow> error + model" where
  "GCTaskILEWCTrainer_batch_backward self ts m b =
     (case inference self (zero_grad self m) b ts of
        Inl e \<Rightarrow> Inl e
      | Inr curr_results \<Rightarrow> backward self (loss curr_results) (zero_grad self m) b ts)"

text \<open>The loop over the batches of the loader.\<close>

fun GCTaskILEWCTrainer_fisher_loop ::
  "('g, 'd) trainer \<Rightarrow> training_state \<Rightarrow> 'g batch list \<Rightarrow> model \<Rightarrow> nat \<Rightarrow> tdict \<Rightarrow> tdict
     \<Rightarrow> error + model \<times> nat \<times> tdict \<times> tdict" where
  "GCTaskILEWCTrainer_fisher_loop self ts [] m total_num_items ps fs =
     Inr (m, total_num_items, ps, fs)"
| "GCTaskILEWCTrainer_fisher_loop self ts (b # bs) m total_num_items ps fs =
     (case GCTaskILEWCTrainer_batch_backward self ts m b of
        Inl e \<Rightarrow> Inl e
      | Inr m' \<Rightarrow>
          (case GCTaskILEWCTrainer_accumulate m' (length (labels b)) ps fs of
             Inl e \<Rightarrow> Inl e
           | Inr (ps', fs') \<Rightarrow>
               GCTaskILEWCTrainer_fisher_loop self ts bs m'
                 (total_num_items + length (labels b)) ps' fs'))"

text \<open>The last loop: \<open>fishers[name] /= total_num_items\<close>.\<close>

fun GCTaskILEWCTrainer_normalize :: "model \<Rightarrow> nat \<Rightarrow> tdict \<Rightarrow> error + tdict" where
  "GCTaskILEWCTrainer_normalize [] total_num_items fs = Inr fs"
| "GCTaskILEWCTrainer_normalize ((name, p) # rest) total_num_items fs =
     (case fs name of
        None \<Rightarrow> Inl (KeyError name)
      | Some f \<Rightarrow>
          GCTaskILEWCTrainer_normalize rest total_num_items
            (fs(name \<mapsto> tensor_div_int f total_num_items)))"

text \<open>The method mutates the model and appends to the two lists of the training state; it
  returns the model and the training state the caller holds afterwards.\<close>

definition GCTaskILEWCTrainer_processAfterTraining ::
  "('g, 'd) trainer \<Rightarrow> nat \<Rightarrow> 'd \<Rightarrow> model \<Rightarrow> training_state
     \<Rightarrow> (error + model) \<times> training_state" where
  "GCTaskILEWCTrainer_processAfterTraining self task_id curr_dataset curr_model
       curr_training_states =
     (case super_processAfterTraining self task_id curr_dataset curr_model
             curr_training_states of
        Inl e \<Rightarrow> (Inl e, curr_training_states)
      | Inr m0 \<Rightarrow>
          (case prepareLoader self curr_dataset curr_training_states of
             Inl e \<Rightarrow> (Inl e, curr_training_states)
           | Inr train_loader \<Rightarrow>
               (case GCTaskILEWCTrainer_fisher_loop self curr_training_states train_loader
                       m0 0 (zeros_dict m0 Map.empty) (zeros_dict m0 Map.empty) of
                  Inl e \<Rightarrow> (Inl e, curr_training_states)
                | Inr (m, total_num_items, ps, fs) \<Rightarrow>
                    (case GCTaskILEWCTrainer_normalize m total_num_items fs of
                       Inl e \<Rightarrow> (Inl e, curr_training_states)
                     | Inr fs' \<Rightarrow>
                         (Inr m,
                          curr_training_states
                            \<lparr>fishers := fishers curr_training_states @ [fs'],
                             params := params curr_training_states @ [ps]\<rparr>)))))"

section \<open>GCClassILEWCTrainer\<close>

text \<open>The class repeats the three methods of \<open>GCTaskILEWCTrainer\<close> in its own body
  (it inherits \<open>inference\<close> from the base trainer); each is translated from its own
  lines.\<close>

subsection \<open>afterInference\<close>

fun GCClassILEWCTrainer_penalty_params ::
  "fl \<Rightarrow> tdict \<Rightarrow> tdict \<Rightarrow> model \<Rightarrow> fl \<Rightarrow> error + fl" where
  "GCClassILEWCTrainer_penalty_params lam hparam hfisher [] loss_reg = Inr loss_reg"
| "GCClassILEWCTrainer_penalty_params lam hparam hfisher ((name, p) # rest) loss_reg =
     (case hfisher name of
        None \<Rightarrow> Inl (KeyError name)
      | Some f \<Rightarrow>
          (case hparam name of
             None \<Rightarrow> Inl (KeyError name)
           | Some s \<Rightarrow>
               (case tensor_sub (data p) s of
                  Inl e \<Rightarrow> Inl e
                | Inr d \<Rightarrow>
                    (case tensor_mul (scalar_mul lam f) (tensor_pow2 d) of
                       Inl e \<Rightarrow> Inl e
                     | Inr l \<Rightarrow>
                         GCClassILEWCTrainer_penalty_params lam hparam hfisher rest
                           (fl_add loss_reg (tensor_sum l))))))"

fun GCClassILEWCTrainer_penalty_tasks ::
  "fl \<Rightarrow> (tdict \<times> tdict) list \<Rightarrow> model \<Rightarrow> fl \<Rightarrow> error + fl" where
  "GCClassILEWCTrainer_penalty_tasks lam [] m loss_reg = Inr loss_reg"
| "GCClassILEWCTrainer_penalty_tasks lam ((hparam, hfisher) # rest) m loss_reg =
     (case GCClassILEWCTrainer_penalty_params lam hparam hfisher m loss_reg of
        Inl e \<Rightarrow> Inl e
      | Inr r \<Rightarrow> GCClassILEWCTrainer_penalty_tasks lam rest m r)"

definition GCClassILEWCTrainer_loss_reg ::
  "('g, 'd) trainer \<Rightarrow> model \<Rightarrow> training_state \<Rightarrow> error + fl" where
  "GCClassILEWCTrainer_loss_reg self m training_states =
     GCClassILEWCTrainer_penalty_tasks (lamb self)
       (zip (params training_states) (fishers training_states)) m (Fin 0)"

definition GCClassILEWCTrainer_total_loss ::
  "('g, 'd) trainer \<Rightarrow> results \<Rightarrow> model \<Rightarrow> training_state \<Rightarrow> error + fl" where
  "GCClassILEWCTrainer_total_loss self res m training_states =
     (case GCClassILEWCTrainer_loss_reg self m training_states of
        Inl e \<Rightarrow> Inl e
      | Inr loss_reg \<Rightarrow> Inr (fl_add (loss res) loss_reg))"

definition GCClassILEWCTrainer_afterInference ::
  "('g, 'd) trainer \<Rightarrow> results \<Rightarrow> model \<Rightarrow> 'g batch \<Rightarrow> training_state
     \<Rightarrow> (error + step_out \<times> model) \<times> training_state" where
  "GCClassILEWCTrainer_afterInference self res m curr_batch training_states =
     (case GCClassILEWCTrainer_total_loss self res m training_states of
        Inl e \<Rightarrow> (Inl e, training_states)
      | Inr total_loss \<Rightarrow>
          (case backward self total_loss m curr_batch training_states of
             Inl e \<Rightarrow> (Inl e, training_states)
           | Inr m1 \<Rightarrow>
               (case optimizer_step self m1 of
                  Inl e \<Rightarrow> (Inl e, training_states)
                | Inr m2 \<Rightarrow>
                    (case predictionFormat self res of
                       Inl e \<Rightarrow> (Inl e, training_states)
                     | Inr fmt \<Rightarrow>
                         (case eval_fn self fmt (labels curr_batch) of
                            Inl e \<Rightarrow> (Inl e, training_states)
                          | Inr a \<Rightarrow>
                              (Inr (\<lparr>out_num_items = length (preds res),
                                     out_loss = total_loss, out_acc = a\<rparr>, m2),
                               training_states))))))"

subsection \<open>initTrainingStates\<close>

definition GCClassILEWCTrainer_initTrainingStates :: training_state where
  "GCClassILEWCTrainer_initTrainingStates = \<lparr>fishers = [], params = []\<rparr>"

subsection \<open>processAfterTraining\<close>

fun GCClassILEWCTrainer_accumulate ::
  "model \<Rightarrow> nat \<Rightarrow> tdict \<Rightarrow> tdict \<Rightarrow> error + tdict \<times> tdict" where
  "GCClassILEWCTrainer_accumulate [] curr_num_items ps fs = Inr (ps, fs)"
| "GCClassILEWCTrainer_accumulate ((name, p) # rest) curr_num_items ps fs =
     (case grad p of
        None \<Rightarrow>
          GCClassILEWCTrainer_accumulate rest curr_num_items (ps(name \<mapsto> data p)) fs
      | Some g \<Rightarrow>
          (case fs name of
             None \<Rightarrow> Inl (KeyError name)
           | Some f \<Rightarrow>
               (case tensor_add f (tensor_mul_int (tensor_pow2 g) curr_num_items) of
                  Inl e \<Rightarrow> Inl e
                | Inr f' \<Rightarrow>
                    GCClassILEWCTrainer_accumulate rest curr_num_items
                      (ps(name \<mapsto> data p)) (fs(name \<mapsto> f')))))"

definition GCClassILEWCTrainer_batch_backward ::
  "('g, 'd) trainer \<Rightarrow> training_state \<Rightarrow> model \<Rightarrow> 'g batch \<Rightarrow> error + model" where
  "GCClassILEWCTrainer_batch_backward self ts m b =
     (case inference self (zero_grad self m) b ts of
        Inl e \<Rightarrow> Inl e
      | Inr curr_results \<Rightarrow> backward self (loss curr_results) (zero_grad self m) b ts)"

fun GCClassILEWCTrainer_fisher_loop ::
  "('g, 'd) trainer \<Rightarrow> training_state \<Rightarrow> 'g batch list \<Rightarrow> model \<Rightarrow> nat \<Rightarrow> tdict \<Rightarrow> tdict
     \<Rightarrow> error + model \<times> nat \<times> tdict \<times> tdict" where
  "GCClassILEWCTrainer_fisher_loop self ts [] m total_num_items ps fs =
     Inr (m, total_num_items, ps, fs)"
| "GCClassILEWCTrainer_fisher_loop self ts (b # bs) m total_num_items ps fs =
     (case GCClassILEWCTrainer_batch_backward self ts m b of
        Inl e \<Rightarrow> Inl e
      | Inr m' \<Rightarrow>
          (case GCClassILEWCTrainer_accumulate m' (length (labels b)) ps fs of
             Inl e \<Rightarrow> Inl e
           | Inr (ps', fs') \<Rightarrow>
               GCClassILEWCTrainer_fisher_loop self ts bs m'
                 (total_num_items + length (labels b)) ps' fs'))"

fun GCClassILEWCTrainer_normalize :: "model \<Rightarrow> nat \<Rightarrow> tdict \<Rightarrow> error + tdict" where
  "GCClassILEWCTrainer_normalize [] total_num_items fs = Inr fs"
| "GCClassILEWCTrainer_normalize ((name, p) # rest) total_num_items fs =
     (case fs name of
        None \<Rightarrow> Inl (KeyError name)
      | Some f \<Rightarrow>
          GCClassILEWCTrainer_normalize rest total_num_items
            (fs(name \<mapsto> tensor_div_int f total_num_items)))"

definition GCClassILEWCTrainer_processAfterTraining ::
  "('g, 'd) trainer \<Rightarrow> nat \<Rightarrow> 'd \<Rightarrow> model \<Rightarrow> training_state
     \<Rightarrow> (error + model) \<times> training_state" where
  "GCClassILEWCTrainer_processAfterTraining self task_id curr_dataset curr_model
       curr_training_states =
     (case super_processAfterTraining self task_id curr_dataset curr_model
             curr_training_states of
        Inl e \<Rightarrow> (Inl e, curr_training_states)
      | Inr m0 \<Rightarrow>
          (case prepareLoader self curr_dataset curr_training_states of
             Inl e \<Rightarrow> (Inl e, curr_training_states)
           | Inr train_loader \<Rightarrow>
               (case GCClassILEWCTrainer_fisher_loop self curr_training_states train_loader
                       m0 0 (zeros_dict m0 Map.empty) (zeros_dict m0 Map.empty) of
                  Inl e \<Rightarrow> (Inl e, curr_training_states)
                | Inr (m, total_num_items, ps, fs) \<Rightarrow>
                    (case GCClassILEWCTrainer_normalize m total_num_items fs of
                       Inl e \<Rightarrow> (Inl e, curr_training_states)
                     | Inr fs' \<Rightarrow>
                         (Inr m,
                          curr_training_states
                            \<lparr>fishers := fishers curr_training_states @ [fs'],
                             params := params curr_training_states @ [ps]\<rparr>)))))"

section \<open>GCDomainILEWCTrainer and GCTimeILEWCTrainer\<close>

text \<open>Both classes derive from \<open>GCClassILEWCTrainer\<close> with the body \<open>pass\<close>: every method
  is the inherited one.\<close>

definition GCDomainILEWCTrainer_afterInference ::
  "('g, 'd) trainer \<Rightarrow> results \<Rightarrow> model \<Rightarrow> 'g batch \<Rightarrow> training_state
     \<Rightarrow> (error + step_out \<times> model) \<times> training_state" where
  "GCDomainILEWCTrainer_afterInference = GCClassILEWCTrainer_afterInference"

definition GCDomainILEWCTrainer_initTrainingStates :: training_state where
  "GCDomainILEWCTrainer_initTrainingStates = GCClassILEWCTrainer_initTrainingStates"

definition GCDomainILEWCTrainer_processAfterTraining ::
  "('g, 'd) trainer \<Rightarrow> nat \<Rightarrow> 'd \<Rightarrow> model \<Rightarrow> training_state
     \<Rightarrow> (error + model) \<times> training_state" where
  "GCDomainILEWCTrainer_processAfterTraining = GCClassILEWCTrainer_processAfterTraining"

definition GCTimeILEWCTrainer_afterInference ::
  "('g, 'd) trainer \<Rightarrow> results \<Rightarrow> model \<Rightarrow> 'g batch \<Rightarrow> training_state
     \<Rightarrow> (error + step_out \<times> model) \<times> training_state" where
  "GCTimeILEWCTrainer_afterInference = GCClassILEWCTrainer_afterInference"

definition GCTimeILEWCTrainer_initTrainingStates :: training_state where
  "GCTimeILEWCTrainer_initTrainingStates = GCClassILEWCTrainer_initTrainingStates"

definition GCTimeILEWCTrainer_processAfterTraining ::
  "('g, 'd) trainer \<Rightarrow> nat \<Rightarrow> 'd \<Rightarrow> model \<Rightarrow> training_state
     \<Rightarrow> (error + model) \<times> training_state" where
  "GCTimeILEWCTrainer_processAfterTraining = GCClassILEWCTrainer_processAfterTraining"

section \<open>A run of the trainer\<close>

text \<open>
  The outer loop that calls the methods belongs to the base trainer. A run is described
  by the calls it may make on the state it holds: the live model, the training state, and
  the number of tasks completed so far, which counts the calls of
  \<open>processAfterTraining\<close> that returned. \<open>run self s s'\<close> says that \<open>s'\<close> is reached from
  \<open>s\<close> by such calls, in any order and with any arguments; between two calls the model may
  change in any way (ordinary training). A call that raises leaves the state it had made.
\<close>

record run_state =
  run_model :: model
  run_training_states :: training_state
  tasks_completed :: nat

definition run_start :: "model \<Rightarrow> run_state" where
  "run_start m =
     \<lparr>run_model = m, run_training_states = GCTaskILEWCTrainer_initTrainingStates,
      tasks_completed = 0\<rparr>"

inductive run :: "('g, 'd) trainer \<Rightarrow> run_state \<Rightarrow> run_state \<Rightarrow> bool" for self s where
  run_refl: "run self s s"
| run_model_change: "run self s s1 \<Longrightarrow> run self s (s1\<lparr>run_model := m\<rparr>)"
| run_afterInference:
    "run self s s1 \<Longrightarrow>
     GCTaskILEWCTrainer_afterInference self res (run_model s1) b (run_training_states s1)
       = (r, ts') \<Longrightarrow>
     run self s (s1\<lparr>run_training_states := ts'\<rparr>)"
| run_task_completed:
    "run self s s1 \<Longrightarrow>
     GCTaskILEWCTrainer_processAfterTraining self task_id ds (run_model s1)
       (run_training_states s1) = (Inr m', ts') \<Longrightarrow>
     run self s \<lparr>run_model = m', run_training_states = ts',
       tasks_completed = Suc (tasks_completed s1)\<rparr>"
| run_task_failed:
    "run self s s1 \<Longrightarrow>
     GCTaskILEWCTrainer_processAfterTraining self task_id ds (run_model s1)
       (run_training_states s1) = (Inl e, ts') \<Longrightarrow>
     run self s (s1\<lparr>run_training_states := ts'\<rparr>)"

section \<open>The quantities the specification names\<close>

text \<open>A tensor all of whose elements are finite, and the list of their values.\<close>

definition finite_tensor :: "tensor \<Rightarrow> bool" where
  "finite_tensor t = list_all is_Fin t"

text \<open>
  The penalty as the specification words it: for one parameter and one task,
  \<open>lambda * fisher * (current - snapshot) ** 2\<close> summed over the elements; then the sum
  over the parameters of the live model and over the tasks of the history.
\<close>

definition ewc_elements :: "rat \<Rightarrow> tensor \<Rightarrow> tensor \<Rightarrow> tensor \<Rightarrow> rat" where
  "ewc_elements lam f cur snap =
     (\<Sum>((fj, cj), sj)\<leftarrow>zip (zip f cur) snap.
        lam * fl_val fj * (fl_val cj - fl_val sj) ^ 2)"

definition ewc_penalty :: "rat \<Rightarrow> model \<Rightarrow> training_state \<Rightarrow> rat" where
  "ewc_penalty lam m ts =
     (\<Sum>(snap, fish)\<leftarrow>zip (params ts) (fishers ts).
        \<Sum>(name, p)\<leftarrow>m. ewc_elements lam (the (fish name)) (data p) (the (snap name)))"

text \<open>Every dictionary of the history has, for every parameter of the live model, a
  finite tensor of the parameter's shape.\<close>

definition entry_fits :: "model \<Rightarrow> tdict \<Rightarrow> bool" where
  "entry_fits m d \<longleftrightarrow>
     (\<forall>(name, p) \<in> set m.
        case d name of
          None \<Rightarrow> False
        | Some t \<Rightarrow> length t = length (data p) \<and> finite_tensor t)"

definition history_fits :: "model \<Rightarrow> training_state \<Rightarrow> bool" where
  "history_fits m ts \<longleftrightarrow>
     (\<forall>d \<in> set (params ts) \<union> set (fishers ts). entry_fits m d)"

text \<open>Every parameter of the live model has a finite value.\<close>

definition finite_model :: "model \<Rightarrow> bool" where
  "finite_model m \<longleftrightarrow> (\<forall>(name, p) \<in> set m. finite_tensor (data p))"

text \<open>
  The Fisher-estimation pass, batch by batch: the model after the backward pass of each
  batch, with the number of items of the batch. (The list stops where a batch raises.)
\<close>

fun backward_trace ::
  "('g, 'd) trainer \<Rightarrow> training_state \<Rightarrow> 'g batch list \<Rightarrow> model \<Rightarrow> (model \<times> nat) list" where
  "backward_trace self ts [] m = []"
| "backward_trace self ts (b # bs) m =
     (case GCTaskILEWCTrainer_batch_backward self ts m b of
        Inl e \<Rightarrow> []
      | Inr m' \<Rightarrow> (m', length (labels b)) # backward_trace self ts bs m')"

text \<open>The gradient of the parameter \<open>name\<close> in a model (\<open>None\<close> when absent).\<close>

definition grad_of :: "model \<Rightarrow> string \<Rightarrow> tensor option" where
  "grad_of m name = (case map_of m name of None \<Rightarrow> None | Some p \<Rightarrow> grad p)"

text \<open>
  The Fisher estimate as the specification words it, for element \<open>j\<close> of the parameter
  \<open>name\<close>: the sum over the batches of \<open>gradient ** 2 * batch_item_count\<close>, divided by the
  total item count.
\<close>

definition weighted_sq_grads :: "string \<Rightarrow> nat \<Rightarrow> (model \<times> nat) list \<Rightarrow> rat" where
  "weighted_sq_grads name j tr =
     (\<Sum>(m, n)\<leftarrow>tr. case grad_of m name of
                      None \<Rightarrow> 0
                    | Some g \<Rightarrow> (fl_val (g ! j)) ^ 2 * of_nat n)"

definition total_items :: "(model \<times> nat) list \<Rightarrow> nat" where
  "total_items tr = sum_list (map snd tr)"

definition fisher_spec :: "string \<Rightarrow> nat \<Rightarrow> (model \<times> nat) list \<Rightarrow> rat" where
  "fisher_spec name j tr = weighted_sq_grads name j tr / of_nat (total_items tr)"

text \<open>The parameter names are distinct and the same after every backward pass, and the
  gradients of \<open>name\<close> are finite.\<close>

definition stable_names :: "model \<Rightarrow> (model \<times> nat) list \<Rightarrow> bool" where
  "stable_names m0 tr \<longleftrightarrow>
     distinct (map fst m0) \<and> (\<forall>(m, n) \<in> set tr. map fst m = map fst m0)"

definition finite_grads :: "string \<Rightarrow> (model \<times> nat) list \<Rightarrow> bool" where
  "finite_grads name tr \<longleftrightarrow>
     (\<forall>(m, n) \<in> set tr.
        case grad_of m name of None \<Rightarrow> True | Some g \<Rightarrow> finite_tensor g)"

text \<open>
  The conditions under which the estimation raises nothing of its own: a dictionary that
  holds, for every parameter of the model \<open>m0\<close>, a tensor of the parameter's shape; and
  gradients that have the shape of their parameter in \<open>m0\<close>.
\<close>

definition shaped_like :: "model \<Rightarrow> tdict \<Rightarrow> bool" where
  "shaped_like m0 d \<longleftrightarrow>
     (\<forall>(name, p0) \<in> set m0.
        case d name of None \<Rightarrow> False | Some f \<Rightarrow> length f = length (data p0))"

definition grads_fit :: "model \<Rightarrow> (model \<times> nat) list \<Rightarrow> bool" where
  "grads_fit m0 tr \<longleftrightarrow>
     (\<forall>(m, n) \<in> set tr. \<forall>(name, p) \<in> set m.
        case grad p of
          None \<Rightarrow> True
        | Some g \<Rightarrow>
            (case map_of m0 name of
               None \<Rightarrow> False
             | Some p0 \<Rightarrow> length g = length (data p0)))"

text \<open>A tensor whose elements are all 0 or NaN, and a dictionary of such tensors: what
  the Fisher accumulators hold as long as every batch had no items.\<close>

definition zero_or_nan :: "tensor \<Rightarrow> bool" where
  "zero_or_nan t \<longleftrightarrow> (\<forall>x \<in> set t. x = Fin 0 \<or> x = NaN)"

definition zero_or_nan_dict :: "tdict \<Rightarrow> bool" where
  "zero_or_nan_dict d \<longleftrightarrow> (\<forall>name f. d name = Some f \<longrightarrow> zero_or_nan f)"

section \<open>The trainer on a store of tensors\<close>

text \<open>
  The definitions above pass tensors by value. PyTorch tensors are objects: the backward
  pass and the optimizer step write into the model's tensors, \<open>fishers[name] += ...\<close> and
  \<open>fishers[name] /= total_num_items\<close> write into the tensor the dictionary holds, and the
  dictionaries appended to the training state are the very objects the method built. To
  see that none of these writes reaches a tensor of the history, the two methods are
  modelled a second time on an explicit store: a list of cells, one per tensor object,
  addressed by position. A new tensor (\<open>zeros_like\<close>, \<open>clone\<close>) is a new cell at the end;
  an update in place overwrites a cell.
\<close>

subsection \<open>Cells, references and views\<close>

type_synonym addr = nat

type_synonym heap = "tensor list"

text \<open>A parameter of the live model refers to the cell of its value and, when it has a
  gradient, to the cell of the gradient.\<close>

record pref =
  data_at :: addr
  grad_at :: "addr option"

type_synonym hmodel = "(string \<times> pref) list"

text \<open>A dictionary of the history (or a local \<open>params\<close>, \<open>fishers\<close>) maps a parameter name
  to the cell of its tensor.\<close>

type_synonym adict = "string \<rightharpoonup> addr"

record store =
  cells :: heap
  live :: hmodel
  stored_fishers :: "adict list"
  stored_params :: "adict list"

text \<open>What a reference, a model, a dictionary and the history hold, read off the cells:
  the values the definitions of the sections above work on.\<close>

definition param_view :: "heap \<Rightarrow> pref \<Rightarrow> param" where
  "param_view h r = \<lparr>data = h ! data_at r, grad = map_option (\<lambda>a. h ! a) (grad_at r)\<rparr>"

definition model_view :: "heap \<Rightarrow> hmodel \<Rightarrow> model" where
  "model_view h hm = map (\<lambda>(n, r). (n, param_view h r)) hm"

definition dict_view :: "heap \<Rightarrow> adict \<Rightarrow> tdict" where
  "dict_view h d = (\<lambda>name. map_option (\<lambda>a. h ! a) (d name))"

definition history_view :: "store \<Rightarrow> training_state" where
  "history_view st =
     \<lparr>fishers = map (dict_view (cells st)) (stored_fishers st),
      params = map (dict_view (cells st)) (stored_params st)\<rparr>"

definition live_view :: "store \<Rightarrow> model" where
  "live_view st = model_view (cells st) (live st)"

subsection \<open>Writing the model in place\<close>

text \<open>
  \<open>backward\<close>, \<open>zero_grad\<close> and \<open>optimizer.step\<close> are given, as before, by the model they
  leave; on the store the model they leave is written into the cells of the live model,
  parameter by parameter. A gradient that appears where there was none is a new cell; a
  parameter the model did not have gets new cells.
\<close>

definition write_param :: "heap \<Rightarrow> pref \<Rightarrow> param \<Rightarrow> heap \<times> pref" where
  "write_param h r p =
     (let h1 = h[data_at r := data p] in
      case grad p of
        None \<Rightarrow> (h1, r\<lparr>grad_at := None\<rparr>)
      | Some g \<Rightarrow>
          (case grad_at r of
             Some a \<Rightarrow> (h1[a := g], r)
           | None \<Rightarrow> (h1 @ [g], r\<lparr>grad_at := Some (length h1)\<rparr>)))"

definition fresh_param :: "heap \<Rightarrow> param \<Rightarrow> heap \<times> pref" where
  "fresh_param h p =
     (case grad p of
        None \<Rightarrow> (h @ [data p], \<lparr>data_at = length h, grad_at = None\<rparr>)
      | Some g \<Rightarrow> (h @ [data p, g], \<lparr>data_at = length h, grad_at = Some (Suc (length h))\<rparr>))"

fun commit :: "heap \<Rightarrow> hmodel \<Rightarrow> model \<Rightarrow> heap \<times> hmodel" where
  "commit h hm [] = (h, [])"
| "commit h [] ((n, p) # m') =
     (case fresh_param h p of (h1, r) \<Rightarrow>
        (case commit h1 [] m' of (h2, hm') \<Rightarrow> (h2, (n, r) # hm')))"
| "commit h ((n0, r) # hm) ((n, p) # m') =
     (case write_param h r p of (h1, r') \<Rightarrow>
        (case commit h1 hm m' of (h2, hm') \<Rightarrow> (h2, (n, r') # hm')))"

definition commit_model :: "store \<Rightarrow> model \<Rightarrow> store" where
  "commit_model st m' =
     (case commit (cells st) (live st) m' of (h', hm') \<Rightarrow> st\<lparr>cells := h', live := hm'\<rparr>)"

subsection \<open>Which cells are whose\<close>

definition pref_addrs :: "pref \<Rightarrow> addr list" where
  "pref_addrs r = data_at r # (case grad_at r of None \<Rightarrow> [] | Some a \<Rightarrow> [a])"

definition live_addrs :: "hmodel \<Rightarrow> addr list" where
  "live_addrs hm = concat (map (\<lambda>(n, r). pref_addrs r) hm)"

definition live_ok :: "heap \<Rightarrow> hmodel \<Rightarrow> bool" where
  "live_ok h hm \<longleftrightarrow> distinct (live_addrs hm) \<and> (\<forall>a \<in> set (live_addrs hm). a < length h)"

text \<open>The cells the history refers to.\<close>

definition stored_addrs :: "store \<Rightarrow> addr set" where
  "stored_addrs st = (\<Union>d \<in> set (stored_fishers st) \<union> set (stored_params st). ran d)"

text \<open>The live model and the history share no cell, and refer to cells that exist.\<close>

definition separated :: "store \<Rightarrow> bool" where
  "separated st \<longleftrightarrow>
     live_ok (cells st) (live st) \<and>
     (\<forall>a \<in> stored_addrs st. a < length (cells st) \<and> a \<notin> set (live_addrs (live st)))"

text \<open>The store at the start of a run: the model, and the empty history of
  \<open>initTrainingStates\<close>.\<close>

definition start_store :: "model \<Rightarrow> store" where
  "start_store m =
     commit_model \<lparr>cells = [], live = [], stored_fishers = [], stored_params = []\<rparr> m"

subsection \<open>afterInference on the store\<close>

text \<open>
  The penalty is computed out of place (\<open>self.lamb * _fisher[name]\<close>, \<open>p - _param[name]\<close>,
  \<open>** 2\<close>, \<open>loss_reg + l.sum()\<close> each make a new tensor), so it is the value computed by
  \<open>GCTaskILEWCTrainer_total_loss\<close> on what the store holds. \<open>total_loss.backward()\<close> and
  \<open>optimizer.step()\<close> then update the live model in place. The store returned is the one
  the caller is left with, also when a later step raises.
\<close>

definition GCTaskILEWCTrainer_afterInference_store ::
  "('g, 'd) trainer \<Rightarrow> results \<Rightarrow> 'g batch \<Rightarrow> store \<Rightarrow> (error + step_out) \<times> store" where
  "GCTaskILEWCTrainer_afterInference_store self res curr_batch st =
     (case GCTaskILEWCTrainer_total_loss self res (live_view st) (history_view st) of
        Inl e \<Rightarrow> (Inl e, st)
      | Inr total_loss \<Rightarrow>
          (case backward self total_loss (live_view st) curr_batch (history_view st) of
             Inl e \<Rightarrow> (Inl e, st)
           | Inr m1 \<Rightarrow>
               (case optimizer_step self (live_view (commit_model st m1)) of
                  Inl e \<Rightarrow> (Inl e, commit_model st m1)
                | Inr m2 \<Rightarrow>
                    (case predictionFormat self res of
                       Inl e \<Rightarrow> (Inl e, commit_model (commit_model st m1) m2)
                     | Inr fmt \<Rightarrow>
                         (case eval_fn self fmt (labels curr_batch) of
                            Inl e \<Rightarrow> (Inl e, commit_model (commit_model st m1) m2)
                          | Inr a \<Rightarrow>
                              (Inr \<lparr>out_num_items = length (preds res),
                                    out_loss = total_loss, out_acc = a\<rparr>,
                               commit_model (commit_model st m1) m2))))))"

subsection \<open>processAfterTraining on the store\<close>

text \<open>\<open>{name: torch.zeros_like(p) for name, p in curr_model.named_parameters()}\<close>: one new
  cell per parameter.\<close>

fun zeros_dict_store :: "hmodel \<Rightarrow> heap \<Rightarrow> adict \<Rightarrow> heap \<times> adict" where
  "zeros_dict_store [] h d = (h, d)"
| "zeros_dict_store ((name, r) # rest) h d =
     zeros_dict_store rest (h @ [zeros_like (h ! data_at r)]) (d(name \<mapsto> length h))"

text \<open>
  The loop over the parameters after a backward pass. \<open>params[name] = p.data.clone().detach()\<close>
  binds the name to a new cell holding a copy of the value;
  \<open>fishers[name] += (p.grad.data.clone().detach() ** 2) * curr_num_items\<close> overwrites the
  cell that \<open>fishers[name]\<close> refers to. When the loop raises, the cells written so far stay
  written.
\<close>

fun GCTaskILEWCTrainer_accumulate_store ::
  "hmodel \<Rightarrow> nat \<Rightarrow> heap \<Rightarrow> adict \<Rightarrow> adict \<Rightarrow> error \<times> heap + heap \<times> adict" where
  "GCTaskILEWCTrainer_accumulate_store [] curr_num_items h ps fs = Inr (h, ps)"
| "GCTaskILEWCTrainer_accumulate_store ((name, r) # rest) curr_num_items h ps fs =
     (case grad_at r of
        None \<Rightarrow>
          GCTaskILEWCTrainer_accumulate_store rest curr_num_items
            (h @ [h ! data_at r]) (ps(name \<mapsto> length h)) fs
      | Some ga \<Rightarrow>
          (case fs name of
             None \<Rightarrow> Inl (KeyError name, h @ [h ! data_at r])
           | Some fa \<Rightarrow>
               (case tensor_add ((h @ [h ! data_at r]) ! fa)
                       (tensor_mul_int (tensor_pow2 ((h @ [h ! data_at r]) ! ga))
                          curr_num_items) of
                  Inl e \<Rightarrow> Inl (e, h @ [h ! data_at r])
                | Inr f' \<Rightarrow>
                    GCTaskILEWCTrainer_accumulate_store rest curr_num_items
                      ((h @ [h ! data_at r])[fa := f']) (ps(name \<mapsto> length h)) fs)))"

text \<open>\<open>fishers[name] /= total_num_items\<close>, in place.\<close>

fun GCTaskILEWCTrainer_normalize_store ::
  "hmodel \<Rightarrow> nat \<Rightarrow> heap \<Rightarrow> adict \<Rightarrow> error \<times> heap + heap" where
  "GCTaskILEWCTrainer_normalize_store [] total_num_items h fs = Inr h"
| "GCTaskILEWCTrainer_normalize_store ((name, r) # rest) total_num_items h fs =
     (case fs name of
        None \<Rightarrow> Inl (KeyError name, h)
      | Some fa \<Rightarrow>
          GCTaskILEWCTrainer_normalize_store rest total_num_items
            (h[fa := tensor_div_int (h ! fa) total_num_items]) fs)"

text \<open>The loop over the batches: \<open>zero_grad\<close> and the backward pass write into the live
  model, then the parameters are visited.\<close>

fun GCTaskILEWCTrainer_fisher_loop_store ::
  "('g, 'd) trainer \<Rightarrow> 'g batch list \<Rightarrow> store \<Rightarrow> nat \<Rightarrow> adict \<Rightarrow> adict
     \<Rightarrow> error \<times> store + store \<times> nat \<times> adict" where
  "GCTaskILEWCTrainer_fisher_loop_store self [] st total_num_items ps fs =
     Inr (st, total_num_items, ps)"
| "GCTaskILEWCTrainer_fisher_loop_store self (b # bs) st total_num_items ps fs =
     (let st1 = commit_model st (zero_grad self (live_view st)) in
      case inference self (live_view st1) b (history_view st1) of
        Inl e \<Rightarrow> Inl (e, st1)
      | Inr curr_results \<Rightarrow>
          (case backward self (loss curr_results) (live_view st1) b (history_view st1) of
             Inl e \<Rightarrow> Inl (e, st1)
           | Inr m' \<Rightarrow>
               (let st2 = commit_model st1 m' in
                case GCTaskILEWCTrainer_accumulate_store (live st2) (length (labels b))
                       (cells st2) ps fs of
                  Inl (e, h') \<Rightarrow> Inl (e, st2\<lparr>cells := h'\<rparr>)
                | Inr (h', ps') \<Rightarrow>
                    GCTaskILEWCTrainer_fisher_loop_store self bs (st2\<lparr>cells := h'\<rparr>)
                      (total_num_items + length (labels b)) ps' fs)))"

text \<open>The method: the two appends put the references of the local dictionaries into the
  history; no tensor is copied.\<close>

definition GCTaskILEWCTrainer_processAfterTraining_store ::
  "('g, 'd) trainer \<Rightarrow> nat \<Rightarrow> 'd \<Rightarrow> store \<Rightarrow> (error + unit) \<times> store" where
  "GCTaskILEWCTrainer_processAfterTraining_store self task_id curr_dataset st =
     (case super_processAfterTraining self task_id curr_dataset (live_view st)
             (history_view st) of
        Inl e \<Rightarrow> (Inl e, st)
      | Inr m0 \<Rightarrow>
          (let st0 = commit_model st m0 in
           case zeros_dict_store (live st0) (cells st0) Map.empty of (h1, ps0) \<Rightarrow>
           case zeros_dict_store (live st0) h1 Map.empty of (h2, fs0) \<Rightarrow>
           (let st2 = st0\<lparr>cells := h2\<rparr> in
            case prepareLoader self curr_dataset (history_view st2) of
              Inl e \<Rightarrow> (Inl e, st2)
            | Inr train_loader \<Rightarrow>
                (case GCTaskILEWCTrainer_fisher_loop_store self train_loader st2 0 ps0 fs0 of
                   Inl (e, st3) \<Rightarrow> (Inl e, st3)
                 | Inr (st3, total_num_items, ps) \<Rightarrow>
                     (case GCTaskILEWCTrainer_normalize_store (live st3) total_num_items
                             (cells st3) fs0 of
                        Inl (e, h4) \<Rightarrow> (Inl e, st3\<lparr>cells := h4\<rparr>)
                      | Inr h4 \<Rightarrow>
                          (Inr (),
                           st3\<lparr>cells := h4,
                               stored_fishers := stored_fishers st3 @ [fs0],
                               stored_params := stored_params st3 @ [ps]\<rparr>))))))"

subsection \<open>What the two models have to agree on\<close>

text \<open>No two names of a dictionary share a cell.\<close>

definition inj_dict :: "adict \<Rightarrow> bool" where
  "inj_dict d \<longleftrightarrow> (\<forall>n1 n2 a. d n1 = Some a \<longrightarrow> d n2 = Some a \<longrightarrow> n1 = n2)"

text \<open>
  The state of the cells during the estimation pass: the cells \<open>H\<close> of the history and the
  cells of the local dictionaries \<open>ps\<close> and \<open>fs\<close> exist and are not cells of the live
  model; the cells of \<open>fs\<close>, which are written in place, are neither cells of the history
  nor of \<open>ps\<close>.
\<close>

definition locals_ok :: "heap \<Rightarrow> hmodel \<Rightarrow> addr set \<Rightarrow> adict \<Rightarrow> adict \<Rightarrow> bool" where
  "locals_ok h hm H ps fs \<longleftrightarrow>
     live_ok h hm \<and>
     (\<forall>a \<in> H \<union> ran ps \<union> ran fs. a < length h \<and> a \<notin> set (live_addrs hm)) \<and>
     ran fs \<inter> (H \<union> ran ps) = {} \<and> inj_dict fs"

text \<open>The store \<open>h'\<close> is \<open>h\<close> with cells added and the cells \<open>K\<close> left as they were.\<close>

definition extends :: "heap \<Rightarrow> heap \<Rightarrow> addr set \<Rightarrow> bool" where
  "extends h h' K \<longleftrightarrow> length h \<le> length h' \<and> (\<forall>a \<in> K. h' ! a = h ! a)"

text \<open>
  For each loop and for the method, what it means that the run on the store \<open>s\<close> and the
  run on values \<open>v\<close> agree: they raise the same error or return the same values (read off
  the cells), the cells of the history are untouched, and the cells are again laid out as
  above.
\<close>

definition zeros_agrees ::
  "heap \<Rightarrow> adict \<Rightarrow> hmodel \<Rightarrow> heap \<times> adict \<Rightarrow> bool" where
  "zeros_agrees h d rest s \<longleftrightarrow>
     (case s of (h', d') \<Rightarrow>
        length h \<le> length h' \<and> (\<forall>a < length h. h' ! a = h ! a) \<and>
        dict_view h' d' = zeros_dict (model_view h rest) (dict_view h d) \<and>
        ran d' \<subseteq> ran d \<union> {length h ..< length h'} \<and> (inj_dict d \<longrightarrow> inj_dict d'))"

definition accumulate_agrees ::
  "heap \<Rightarrow> heap \<Rightarrow> hmodel \<Rightarrow> addr set \<Rightarrow> adict \<Rightarrow>
   (error + tdict \<times> tdict) \<Rightarrow> (error \<times> heap + heap \<times> adict) \<Rightarrow> bool" where
  "accumulate_agrees h h' hm H fs v s \<longleftrightarrow>
     extends h h' (H \<union> set (live_addrs hm)) \<and>
     (case v of
        Inl e \<Rightarrow> s = Inl (e, h')
      | Inr (psv, fsv) \<Rightarrow>
          (case s of
             Inl x \<Rightarrow> False
           | Inr (h2, ps') \<Rightarrow>
               h2 = h' \<and> dict_view h' ps' = psv \<and> dict_view h' fs = fsv \<and>
               locals_ok h' hm H ps' fs))"

definition normalize_agrees ::
  "heap \<Rightarrow> heap \<Rightarrow> hmodel \<Rightarrow> addr set \<Rightarrow> adict \<Rightarrow> adict \<Rightarrow>
   (error + tdict) \<Rightarrow> (error \<times> heap + heap) \<Rightarrow> bool" where
  "normalize_agrees h h' hm H ps fs v s \<longleftrightarrow>
     extends h h' (H \<union> set (live_addrs hm)) \<and> dict_view h' ps = dict_view h ps \<and>
     locals_ok h' hm H ps fs \<and>
     (case v of
        Inl e \<Rightarrow> s = Inl (e, h')
      | Inr fsv \<Rightarrow> s = Inr h' \<and> dict_view h' fs = fsv)"

definition loop_agrees ::
  "store \<Rightarrow> store \<Rightarrow> adict \<Rightarrow> (error + model \<times> nat \<times> tdict \<times> tdict) \<Rightarrow>
   (error \<times> store + store \<times> nat \<times> adict) \<Rightarrow> bool" where
  "loop_agrees st st' fs v s \<longleftrightarrow>
     stored_fishers st' = stored_fishers st \<and> stored_params st' = stored_params st \<and>
     extends (cells st) (cells st') (stored_addrs st) \<and> separated st' \<and>
     (case v of
        Inl e \<Rightarrow> s = Inl (e, st')
      | Inr (m', N', psv, fsv) \<Rightarrow>
          (case s of
             Inl x \<Rightarrow> False
           | Inr (st2, N2, ps') \<Rightarrow>
               st2 = st' \<and> N2 = N' \<and> live_view st' = m' \<and>
               dict_view (cells st') ps' = psv \<and> dict_view (cells st') fs = fsv \<and>
               locals_ok (cells st') (live st') (stored_addrs st) ps' fs))"

definition estimate_agrees ::
  "store \<Rightarrow> (error + model) \<times> training_state \<Rightarrow> (error + unit) \<times> store \<Rightarrow> bool" where
  "estimate_agrees st v s \<longleftrightarrow>
     (case v of (rv, ts') \<Rightarrow> case s of (rs, st') \<Rightarrow>
        separated st' \<and> history_view st' = ts' \<and>
        extends (cells st) (cells st') (stored_addrs st) \<and>
        (case rv of
           Inl e \<Rightarrow> rs = Inl e \<and> stored_fishers st' = stored_fishers st \<and>
                    stored_params st' = stored_params st
         | Inr m' \<Rightarrow> rs = Inr () \<and> live_view st' = m' \<and>
                    stored_fishers st' \<noteq> [] \<and> stored_params st' \<noteq> [] \<and>
                    butlast (stored_fishers st') = stored_fishers st \<and>
                    butlast (stored_params st') = stored_params st))"

section \<open>Concrete trainers and inputs\<close>

text \<open>
  A trainer for the examples. Its dataset is the list of its batches; inference raises
  on a batch without items; the backward pass gives every parameter the constant gradient
  \<open>g\<close>, except a parameter named \<open>frozen\<close>, which gets none.
\<close>

definition demo_trainer :: "rat \<Rightarrow> (unit, unit batch list) trainer" where
  "demo_trainer g =
     \<lparr>lamb = init_lamb None,
      inference = (\<lambda>m b ts. if labels b = [] then Inl (External ''no items'')
                     else Inr \<lparr>preds = map (\<lambda>y. [Fin 0]) (labels b), loss = Fin 1\<rparr>),
      backward = (\<lambda>l m b ts. Inr (map (\<lambda>(n, p).
                     (n, if n = ''frozen'' then p
                         else p\<lparr>grad := Some (map (\<lambda>x. Fin g) (data p))\<rparr>)) m)),
      zero_grad = (\<lambda>m. map (\<lambda>(n, p). (n, p\<lparr>grad := None\<rparr>)) m),
      optimizer_step = (\<lambda>m. Inr m),
      predictionFormat = (\<lambda>r. Inr (map (\<lambda>row. 0) (preds r))),
      eval_fn = (\<lambda>f l. Inr (Fin 1)),
      prepareLoader = (\<lambda>d ts. Inr d),
      super_processAfterTraining = (\<lambda>t d m ts. Inr m)\<rparr>"

text \<open>A trainer whose backward pass also moves every parameter value up by 1 (and gives
  the old value as the gradient), to tell the value after the last batch from the value
  before the pass.\<close>

definition drift_trainer :: "(unit, unit batch list) trainer" where
  "drift_trainer =
     (demo_trainer 0)\<lparr>backward := (\<lambda>l m b ts. Inr (map (\<lambda>(n, p).
        (n, \<lparr>data = map (\<lambda>x. fl_add x (Fin 1)) (data p), grad = Some (data p)\<rparr>)) m))\<rparr>"

text \<open>A trainer whose backward pass gives every parameter a gradient that is NaN in every
  element.\<close>

definition nan_trainer :: "(unit, unit batch list) trainer" where
  "nan_trainer =
     (demo_trainer 0)\<lparr>backward := (\<lambda>l m b ts. Inr (map (\<lambda>(n, p).
        (n, p\<lparr>grad := Some (map (\<lambda>x. NaN) (data p))\<rparr>)) m))\<rparr>"

definition demo_batch :: "nat \<Rightarrow> unit batch" where
  "demo_batch n = \<lparr>inputs = (), labels = replicate n 1\<rparr>"

definition demo_model :: model where
  "demo_model = [(''w'', \<lparr>data = [Fin (3 / 2)], grad = None\<rparr>),
                 (''frozen'', \<lparr>data = [Fin 7, Fin 8], grad = None\<rparr>)]"

text \<open>The model of the penalty scenario: the single parameter \<open>w\<close>, currently 1.5.\<close>

definition demo_w_model :: model where
  "demo_w_model = [(''w'', \<lparr>data = [Fin (3 / 2)], grad = None\<rparr>)]"

text \<open>The same model after a backward pass of \<open>demo_trainer g\<close>.\<close>

definition demo_model_after :: "rat \<Rightarrow> model" where
  "demo_model_after g = [(''w'', \<lparr>data = [Fin (3 / 2)], grad = Some [Fin g]\<rparr>),
                        (''frozen'', \<lparr>data = [Fin 7, Fin 8], grad = None\<rparr>)]"

definition demo_results :: results where
  "demo_results = \<lparr>preds = [[Fin 0]], loss = Fin 1\<rparr>"

text \<open>The history of the scenario with two completed tasks.\<close>

definition demo_history :: training_state where
  "demo_history =
     \<lparr>fishers = [[''w'' \<mapsto> [Fin (1 / 100)]], [''w'' \<mapsto> [Fin (2 / 100)]]],
      params = [[''w'' \<mapsto> [Fin 1]], [''w'' \<mapsto> [Fin 2]]]\<rparr>"

text \<open>What \<open>demo_trainer g\<close> estimates on \<open>demo_model\<close> from two batches of 3 and 5
  items, and two states of a run that completes this task twice.\<close>

definition demo_fisher :: "rat \<Rightarrow> tdict" where
  "demo_fisher g = [''w'' \<mapsto> [Fin (g * g)], ''frozen'' \<mapsto> [Fin 0, Fin 0]]"

definition demo_snapshot :: tdict where
  "demo_snapshot = [''w'' \<mapsto> [Fin (3 / 2)], ''frozen'' \<mapsto> [Fin 7, Fin 8]]"

definition demo_run_1 :: run_state where
  "demo_run_1 =
     \<lparr>run_model = demo_model_after 2,
      run_training_states = \<lparr>fishers = [demo_fisher 2], params = [demo_snapshot]\<rparr>,
      tasks_completed = 1\<rparr>"

definition demo_run_2 :: run_state where
  "demo_run_2 =
     \<lparr>run_model = demo_model_after 2,
      run_training_states =
        \<lparr>fishers = [demo_fisher 2, demo_fisher 2], params = [demo_snapshot, demo_snapshot]\<rparr>,
      tasks_completed = 2\<rparr>"

text \<open>The penalty scenario on a store: cell 0 is the parameter \<open>w\<close> of the live model, cells
  1 to 4 are the Fisher estimates and snapshots of the two completed tasks.\<close>

definition demo_store :: store where
  "demo_store =
     \<lparr>cells = [[Fin (3 / 2)], [Fin (1 / 100)], [Fin 1], [Fin (2 / 100)], [Fin 2]],
      live = [(''w'', \<lparr>data_at = 0, grad_at = None\<rparr>)],
      stored_fishers = [[''w'' \<mapsto> 1], [''w'' \<mapsto> 3]],
      stored_params = [[''w'' \<mapsto> 2], [''w'' \<mapsto> 4]]\<rparr>"

section \<open>Shared lemmas\<close>

subsection \<open>The conditions, spelled out\<close>

lemma entry_fits_iff:
  "entry_fits m d \<longleftrightarrow>
     (\<forall>(name, p) \<in> set m.
        \<exists>t. d name = Some t \<and> length t = length (data p) \<and> finite_tensor t)"
  by (auto simp: entry_fits_def split: option.splits)

lemma finite_grads_iff:
  "finite_grads name tr \<longleftrightarrow>
     (\<forall>(m, n) \<in> set tr. \<forall>g. grad_of m name = Some g \<longrightarrow> finite_tensor g)"
  by (auto simp: finite_grads_def split: option.splits)

lemma shaped_like_iff:
  "shaped_like m0 d \<longleftrightarrow>
     (\<forall>(name, p0) \<in> set m0. \<exists>f. d name = Some f \<and> length f = length (data p0))"
  by (auto simp: shaped_like_def split: option.splits)

lemma grads_fit_iff:
  "grads_fit m0 tr \<longleftrightarrow>
     (\<forall>(m, n) \<in> set tr. \<forall>(name, p) \<in> set m. \<forall>g. grad p = Some g \<longrightarrow>
        (\<exists>p0. map_of m0 name = Some p0 \<and> length g = length (data p0)))"
  by (fastforce simp: grads_fit_def split: option.splits)

subsection \<open>The repeated methods agree\<close>

lemma penalty_params_class_task:
  "GCClassILEWCTrainer_penalty_params lam hp hf m acc =
   GCTaskILEWCTrainer_penalty_params lam hp hf m acc"
  by (induction m arbitrary: acc) (auto split: option.splits sum.splits)

lemma penalty_tasks_class_task:
  "GCClassILEWCTrainer_penalty_tasks lam h m acc =
   GCTaskILEWCTrainer_penalty_tasks lam h m acc"
  by (induction h arbitrary: acc) (auto simp: penalty_params_class_task split: sum.splits)

lemma loss_reg_class_task:
  "GCClassILEWCTrainer_loss_reg self m ts = GCTaskILEWCTrainer_loss_reg self m ts"
  by (simp add: GCClassILEWCTrainer_loss_reg_def GCTaskILEWCTrainer_loss_reg_def
      penalty_tasks_class_task)

lemma total_loss_class_task:
  "GCClassILEWCTrainer_total_loss self res m ts = GCTaskILEWCTrainer_total_loss self res m ts"
  by (simp add: GCClassILEWCTrainer_total_loss_def GCTaskILEWCTrainer_total_loss_def
      loss_reg_class_task)

lemma afterInference_class_task:
  "GCClassILEWCTrainer_afterInference self res m b ts =
   GCTaskILEWCTrainer_afterInference self res m b ts"
  by (simp add: GCClassILEWCTrainer_afterInference_def GCTaskILEWCTrainer_afterInference_def
      total_loss_class_task)

lemma accumulate_class_task:
  "GCClassILEWCTrainer_accumulate m n ps fs = GCTaskILEWCTrainer_accumulate m n ps fs"
  by (induction m arbitrary: ps fs) (auto split: option.splits sum.splits)

lemma batch_backward_class_task:
  "GCClassILEWCTrainer_batch_backward self ts m b =
   GCTaskILEWCTrainer_batch_backward self ts m b"
  by (simp add: GCClassILEWCTrainer_batch_backward_def GCTaskILEWCTrainer_batch_backward_def)

lemma fisher_loop_class_task:
  "GCClassILEWCTrainer_fisher_loop self ts bs m n ps fs =
   GCTaskILEWCTrainer_fisher_loop self ts bs m n ps fs"
  by (induction bs arbitrary: m n ps fs)
     (auto simp: batch_backward_class_task accumulate_class_task split: sum.splits)

lemma normalize_class_task:
  "GCClassILEWCTrainer_normalize m n fs = GCTaskILEWCTrainer_normalize m n fs"
  by (induction m arbitrary: fs) (auto split: option.splits)

lemma processAfterTraining_class_task:
  "GCClassILEWCTrainer_processAfterTraining self tid ds m ts =
   GCTaskILEWCTrainer_processAfterTraining self tid ds m ts"
  by (simp add: GCClassILEWCTrainer_processAfterTraining_def
      GCTaskILEWCTrainer_processAfterTraining_def fisher_loop_class_task normalize_class_task
      cong: sum.case_cong prod.case_cong)

subsection \<open>Errors and the training state\<close>

lemma fl_add_zero_right: "fl_add x (Fin 0) = x"
  by (cases x) simp_all

lemma afterInference_state: "snd (GCTaskILEWCTrainer_afterInference self res m b ts) = ts"
  by (simp add: GCTaskILEWCTrainer_afterInference_def split: sum.splits)

lemma processAfterTraining_cases:
  "(\<exists>e. GCTaskILEWCTrainer_processAfterTraining self tid ds m ts = (Inl e, ts)) \<or>
   (\<exists>m' f p. GCTaskILEWCTrainer_processAfterTraining self tid ds m ts =
      (Inr m', ts\<lparr>fishers := fishers ts @ [f], params := params ts @ [p]\<rparr>))"
  by (auto simp: GCTaskILEWCTrainer_processAfterTraining_def split: sum.splits prod.splits)

lemma fisher_loop_append:
  "GCTaskILEWCTrainer_fisher_loop self ts (bs1 @ bs2) m n ps fs =
     (case GCTaskILEWCTrainer_fisher_loop self ts bs1 m n ps fs of
        Inl e \<Rightarrow> Inl e
      | Inr (m', n', ps', fs') \<Rightarrow> GCTaskILEWCTrainer_fisher_loop self ts bs2 m' n' ps' fs')"
  by (induction bs1 arbitrary: m n ps fs) (auto split: sum.splits)

subsection \<open>Evaluating the concrete trainer\<close>

lemma demo_trainer_simps:
  "lamb (demo_trainer g) = Fin 10000"
  "prepareLoader (demo_trainer g) d ts = Inr d"
  "super_processAfterTraining (demo_trainer g) t d m ts = Inr m"
  "optimizer_step (demo_trainer g) m = Inr m"
  "predictionFormat (demo_trainer g) r = Inr (map (\<lambda>row. 0) (preds r))"
  "eval_fn (demo_trainer g) f l = Inr (Fin 1)"
  by (simp_all add: demo_trainer_def init_lamb_def)

lemma demo_batch_backward:
  "labels b \<noteq> [] \<Longrightarrow> GCTaskILEWCTrainer_batch_backward (demo_trainer g) ts m b =
     Inr (map (\<lambda>(n, p). (n, if n = ''frozen'' then p\<lparr>grad := None\<rparr>
                         else p\<lparr>grad := Some (map (\<lambda>x. Fin g) (data p))\<rparr>)) m)"
  by (simp add: GCTaskILEWCTrainer_batch_backward_def demo_trainer_def
      case_prod_unfold comp_def)

lemma demo_batch_backward_empty:
  "labels b = [] \<Longrightarrow> GCTaskILEWCTrainer_batch_backward (demo_trainer g) ts m b =
     Inl (External ''no items'')"
  by (simp add: GCTaskILEWCTrainer_batch_backward_def demo_trainer_def)

lemma demo_estimate:
  "GCTaskILEWCTrainer_processAfterTraining (demo_trainer g) 0 [demo_batch 3, demo_batch 5]
     demo_model ts =
   (Inr (demo_model_after g),
    ts\<lparr>fishers := fishers ts @ [demo_fisher g], params := params ts @ [demo_snapshot]\<rparr>)"
  by (simp add: GCTaskILEWCTrainer_processAfterTraining_def demo_batch_backward
      demo_trainer_simps demo_model_def demo_model_after_def demo_batch_def zeros_like_def
      demo_fisher_def demo_snapshot_def
      tensor_add_def tensor_mul_int_def tensor_pow2_def tensor_div_int_def fl_of_nat_def)

subsection \<open>Runs\<close>

lemma run_history:
  "run self s s' \<Longrightarrow>
   \<exists>ps fs. params (run_training_states s') = params (run_training_states s) @ ps \<and>
           fishers (run_training_states s') = fishers (run_training_states s) @ fs \<and>
           length ps = length fs \<and>
           tasks_completed s' = tasks_completed s + length ps"
proof (induction rule: run.induct)
  case run_refl
  show ?case by simp
next
  case (run_model_change s1 m)
  then show ?case by simp
next
  case (run_afterInference s1 res b r ts')
  from run_afterInference.hyps(2) have "ts' = run_training_states s1"
    using afterInference_state [of self res "run_model s1" b "run_training_states s1"] by simp
  with run_afterInference.IH show ?case by simp
next
  case (run_task_completed s1 task_id ds m' ts')
  from run_task_completed.hyps(2) obtain f p where
    "ts' = (run_training_states s1)\<lparr>fishers := fishers (run_training_states s1) @ [f],
        params := params (run_training_states s1) @ [p]\<rparr>"
    using processAfterTraining_cases [of self task_id ds "run_model s1" "run_training_states s1"]
    by auto
  with run_task_completed.IH show ?case by auto
next
  case (run_task_failed s1 task_id ds e ts')
  from run_task_failed.hyps(2) have "ts' = run_training_states s1"
    using processAfterTraining_cases [of self task_id ds "run_model s1" "run_training_states s1"]
    by auto
  with run_task_failed.IH show ?case by simp
qed

lemma demo_run_1: "run (demo_trainer 2) (run_start demo_model) demo_run_1"
proof -
  have "run (demo_trainer 2) (run_start demo_model)
          \<lparr>run_model = demo_model_after 2,
           run_training_states = \<lparr>fishers = [demo_fisher 2], params = [demo_snapshot]\<rparr>,
           tasks_completed = Suc (tasks_completed (run_start demo_model))\<rparr>"
    by (rule run_task_completed [OF run_refl, where task_id = 0
          and ds = "[demo_batch 3, demo_batch 5]"])
       (simp add: demo_estimate run_start_def GCTaskILEWCTrainer_initTrainingStates_def)
  then show ?thesis
    by (simp add: demo_run_1_def run_start_def)
qed

lemma demo_run_2: "run (demo_trainer 2) demo_run_1 demo_run_2"
proof -
  have a: "run (demo_trainer 2) demo_run_1 (demo_run_1\<lparr>run_model := demo_model\<rparr>)"
    by (rule run_model_change [OF run_refl])
  have "run (demo_trainer 2) demo_run_1
          \<lparr>run_model = demo_model_after 2,
           run_training_states =
             \<lparr>fishers = [demo_fisher 2, demo_fisher 2],
              params = [demo_snapshot, demo_snapshot]\<rparr>,
           tasks_completed = Suc (tasks_completed (demo_run_1\<lparr>run_model := demo_model\<rparr>))\<rparr>"
    by (rule run_task_completed [OF a, where task_id = 0
          and ds = "[demo_batch 3, demo_batch 5]"])
       (simp add: demo_estimate demo_run_1_def)
  then show ?thesis
    by (simp add: demo_run_1_def demo_run_2_def numeral_2_eq_2)
qed

subsection \<open>The penalty on finite tensors\<close>

lemma finite_tensor_map_Fin: "finite_tensor t \<Longrightarrow> t = map Fin (map fl_val t)"
proof (induction t)
  case Nil
  then show ?case by simp
next
  case (Cons x t)
  then show ?case by (cases x) (simp_all add: finite_tensor_def)
qed

lemma finite_tensor_map [simp]: "finite_tensor (map Fin xs)"
  by (simp add: finite_tensor_def list_all_iff)

lemma ewc_sum_vals:
  "length F = length C \<Longrightarrow> length C = length S \<Longrightarrow>
   foldl fl_add (Fin a)
     (map2 fl_mul (map (fl_mul (Fin lam)) (map Fin F))
        (map (\<lambda>x. fl_mul x x) (map2 fl_sub (map Fin C) (map Fin S)))) =
   Fin (a + ewc_elements lam (map Fin F) (map Fin C) (map Fin S))"
  by (induction F C S arbitrary: a rule: list_induct3)
     (simp_all add: ewc_elements_def fl_sub_def power2_eq_square algebra_simps)

lemma ewc_term:
  assumes "finite_tensor f" "finite_tensor c" "finite_tensor s"
    and "length f = length c" "length s = length c"
  shows "\<exists>d l. tensor_sub c s = Inr d \<and>
           tensor_mul (scalar_mul (Fin lam) f) (tensor_pow2 d) = Inr l \<and>
           fl_add (Fin a) (tensor_sum l) = Fin (a + ewc_elements lam f c s)"
proof -
  obtain F C S where fcs: "f = map Fin F" "c = map Fin C" "s = map Fin S"
    using assms(1-3) finite_tensor_map_Fin by blast
  with assms(4,5) have len: "length F = length C" "length C = length S"
    by simp_all
  have "foldl fl_add (Fin 0)
     (map2 fl_mul (map (fl_mul (Fin lam)) (map Fin F))
        (map (\<lambda>x. fl_mul x x) (map2 fl_sub (map Fin C) (map Fin S)))) =
   Fin (0 + ewc_elements lam (map Fin F) (map Fin C) (map Fin S))"
    by (rule ewc_sum_vals [OF len])
  with len show ?thesis
    by (simp add: fcs tensor_sub_def tensor_mul_def scalar_mul_def tensor_pow2_def
        tensor_sum_def)
qed

lemma penalty_params_finite:
  assumes "finite_model m" "entry_fits m hf" "entry_fits m hp"
  shows "GCTaskILEWCTrainer_penalty_params (Fin lam) hp hf m (Fin a) =
         Inr (Fin (a + (\<Sum>(name, p)\<leftarrow>m.
                ewc_elements lam (the (hf name)) (data p) (the (hp name)))))"
  using assms
proof (induction m arbitrary: a)
  case Nil
  then show ?case by simp
next
  case (Cons np m)
  obtain name p where np: "np = (name, p)" by (cases np)
  from Cons.prems(2) np obtain f where
    f: "hf name = Some f" "length f = length (data p)" "finite_tensor f"
    by (auto simp: entry_fits_iff)
  from Cons.prems(3) np obtain s where
    s: "hp name = Some s" "length s = length (data p)" "finite_tensor s"
    by (auto simp: entry_fits_iff)
  from Cons.prems(1) np have c: "finite_tensor (data p)"
    by (simp add: finite_model_def)
  from ewc_term [OF f(3) c s(3) f(2) s(2), of lam a] obtain d l where
    dl: "tensor_sub (data p) s = Inr d"
        "tensor_mul (scalar_mul (Fin lam) f) (tensor_pow2 d) = Inr l"
        "fl_add (Fin a) (tensor_sum l) = Fin (a + ewc_elements lam f (data p) s)"
    by blast
  from Cons.prems have rest: "finite_model m" "entry_fits m hf" "entry_fits m hp"
    by (simp_all add: finite_model_def entry_fits_iff)
  show ?case
    by (simp add: np f(1) s(1) dl Cons.IH [OF rest] add.assoc)
qed

lemma penalty_tasks_finite:
  assumes "finite_model m" "\<forall>(hp, hf) \<in> set h. entry_fits m hp \<and> entry_fits m hf"
  shows "GCTaskILEWCTrainer_penalty_tasks (Fin lam) h m (Fin a) =
         Inr (Fin (a + (\<Sum>(snap, fish)\<leftarrow>h. \<Sum>(name, p)\<leftarrow>m.
                ewc_elements lam (the (fish name)) (data p) (the (snap name)))))"
  using assms(2)
proof (induction h arbitrary: a)
  case Nil
  then show ?case by simp
next
  case (Cons pf h)
  obtain hp hf where pf: "pf = (hp, hf)" by (cases pf)
  from Cons.prems pf have hd: "entry_fits m hf" "entry_fits m hp"
    by simp_all
  from Cons.prems have tl: "\<forall>(hp, hf) \<in> set h. entry_fits m hp \<and> entry_fits m hf"
    by simp
  show ?case
    by (simp add: pf penalty_params_finite [OF assms(1) hd] Cons.IH [OF tl] add.assoc)
qed

lemma history_fits_zip:
  assumes "history_fits m ts"
  shows "\<forall>(hp, hf) \<in> set (zip (params ts) (fishers ts)). entry_fits m hp \<and> entry_fits m hf"
proof -
  have "entry_fits m hp \<and> entry_fits m hf" if "(hp, hf) \<in> set (zip (params ts) (fishers ts))"
    for hp hf
  proof -
    from that have "hp \<in> set (params ts)" "hf \<in> set (fishers ts)"
      by (auto dest: set_zip_leftD set_zip_rightD)
    with assms show ?thesis
      by (simp add: history_fits_def)
  qed
  then show ?thesis by blast
qed

subsection \<open>The estimation pass, one parameter at a time\<close>

lemma map_of_absent: "name \<notin> fst ` set m \<Longrightarrow> map_of m name = None"
  by (simp add: map_of_eq_None_iff)

lemma grad_of_Cons:
  "grad_of ((n0, p0) # rest) name = (if name = n0 then grad p0 else grad_of rest name)"
  by (simp add: grad_of_def)

lemma grad_of_absent: "name \<notin> fst ` set m \<Longrightarrow> grad_of m name = None"
  by (simp add: grad_of_def map_of_absent)

lemma zeros_dict_absent: "name \<notin> fst ` set m \<Longrightarrow> zeros_dict m d name = d name"
  by (induction m arbitrary: d) auto

lemma zeros_dict_lookup:
  "distinct (map fst m) \<Longrightarrow> map_of m name = Some p \<Longrightarrow>
   zeros_dict m d name = Some (zeros_like (data p))"
proof (induction m arbitrary: d)
  case Nil
  then show ?case by simp
next
  case (Cons np m)
  obtain n0 p0 where np: "np = (n0, p0)" by (cases np)
  show ?case
  proof (cases "name = n0")
    case True
    with Cons.prems np have "p = p0" "name \<notin> fst ` set m" by auto
    with True np show ?thesis by (simp add: zeros_dict_absent)
  next
    case False
    with Cons np show ?thesis by simp
  qed
qed

text \<open>What the loop over the parameters does to one name.\<close>

lemma accumulate_lookup:
  assumes "distinct (map fst m)"
    and "GCTaskILEWCTrainer_accumulate m n ps fs = Inr (ps', fs')"
  shows "ps' name = (case map_of m name of None \<Rightarrow> ps name | Some p \<Rightarrow> Some (data p)) \<and>
         (case grad_of m name of
            None \<Rightarrow> fs' name = fs name
          | Some g \<Rightarrow> \<exists>f f'. fs name = Some f \<and>
              tensor_add f (tensor_mul_int (tensor_pow2 g) n) = Inr f' \<and> fs' name = Some f')"
  using assms
proof (induction m arbitrary: ps fs)
  case Nil
  then show ?case by (simp add: grad_of_def)
next
  case (Cons np m)
  obtain n0 p0 where np: "np = (n0, p0)" by (cases np)
  from Cons.prems(1) np have d: "distinct (map fst m)" "n0 \<notin> fst ` set m"
    by auto
  show ?case
  proof (cases "grad p0")
    case None
    with Cons.prems(2) np
    have step: "GCTaskILEWCTrainer_accumulate m n (ps(n0 \<mapsto> data p0)) fs = Inr (ps', fs')"
      by simp
    from Cons.IH [OF d(1) step] None d(2) show ?thesis
      by (auto simp: np grad_of_Cons map_of_absent grad_of_absent split: option.splits)
  next
    case (Some g0)
    with Cons.prems(2) np obtain f0 f0' where
      f0: "fs n0 = Some f0" "tensor_add f0 (tensor_mul_int (tensor_pow2 g0) n) = Inr f0'"
      and step: "GCTaskILEWCTrainer_accumulate m n (ps(n0 \<mapsto> data p0)) (fs(n0 \<mapsto> f0'))
                   = Inr (ps', fs')"
      by (auto split: option.splits sum.splits)
    from Cons.IH [OF d(1) step] Some d(2) f0 show ?thesis
      by (auto simp: np grad_of_Cons map_of_absent grad_of_absent split: option.splits)
  qed
qed

lemma normalize_lookup:
  assumes "distinct (map fst m)"
    and "GCTaskILEWCTrainer_normalize m N fs = Inr fs'"
  shows "fs' name = (if name \<in> fst ` set m
                     then map_option (\<lambda>f. tensor_div_int f N) (fs name) else fs name)"
  using assms
proof (induction m arbitrary: fs)
  case Nil
  then show ?case by simp
next
  case (Cons np m)
  obtain n0 p0 where np: "np = (n0, p0)" by (cases np)
  from Cons.prems(1) np have d: "distinct (map fst m)" "n0 \<notin> fst ` set m"
    by auto
  from Cons.prems(2) np obtain f0 where f0: "fs n0 = Some f0"
    and step: "GCTaskILEWCTrainer_normalize m N (fs(n0 \<mapsto> tensor_div_int f0 N)) = Inr fs'"
    by (auto split: option.splits)
  from Cons.IH [OF d(1) step] d(2) f0 show ?case
    by (auto simp: np)
qed


subsection \<open>The pass over the batches\<close>

lemma weighted_sq_grads_Cons:
  "weighted_sq_grads name j ((m, n) # tr) =
     (case grad_of m name of None \<Rightarrow> 0 | Some g \<Rightarrow> (fl_val (g ! j)) ^ 2 * of_nat n)
     + weighted_sq_grads name j tr"
  by (simp add: weighted_sq_grads_def)

lemma finite_tensor_nth: "finite_tensor g \<Longrightarrow> j < length g \<Longrightarrow> g ! j = Fin (fl_val (g ! j))"
  by (cases "g ! j") (auto simp: finite_tensor_def list_all_length)

lemma accumulate_finite_step:
  assumes "tensor_add f (tensor_mul_int (tensor_pow2 g) n) = Inr f'"
    and "finite_tensor g" and "\<forall>j<length f. f ! j = Fin (a j)"
  shows "length f' = length f \<and>
         (\<forall>j<length f. f' ! j = Fin (a j + (fl_val (g ! j)) ^ 2 * of_nat n))"
proof -
  from assms(1) have len: "length f = length g"
    and f': "f' = map2 fl_add f (tensor_mul_int (tensor_pow2 g) n)"
    by (auto simp: tensor_add_def tensor_mul_int_def tensor_pow2_def split: if_splits)
  have "f' ! j = Fin (a j + (fl_val (g ! j)) ^ 2 * of_nat n)" if "j < length f" for j
  proof -
    from that len have "g ! j = Fin (fl_val (g ! j))"
      using finite_tensor_nth [OF assms(2)] by simp
    then obtain v where v: "g ! j = Fin v" "fl_val (g ! j) = v" by simp
    from that assms(3) have "f ! j = Fin (a j)" by simp
    with that len v show ?thesis
      by (simp add: f' tensor_mul_int_def tensor_pow2_def fl_of_nat_def power2_eq_square)
  qed
  with len show ?thesis
    by (simp add: f' tensor_mul_int_def tensor_pow2_def)
qed

lemma fisher_loop_lookup:
  assumes "GCTaskILEWCTrainer_fisher_loop self ts bs m N ps fs = Inr (m', N', ps', fs')"
    and "\<forall>(mi, n) \<in> set (backward_trace self ts bs m). distinct (map fst mi)"
    and "finite_grads name (backward_trace self ts bs m)"
    and "fs name = Some f" and "\<forall>j<length f. f ! j = Fin (a j)"
  shows "\<exists>f'. fs' name = Some f' \<and> length f' = length f \<and>
           (\<forall>j<length f. f' ! j =
              Fin (a j + weighted_sq_grads name j (backward_trace self ts bs m)))"
  using assms
proof (induction bs arbitrary: m N ps fs f a)
  case Nil
  then show ?case by (simp add: weighted_sq_grads_def)
next
  case (Cons b bs)
  from Cons.prems(1) obtain m1 ps1 fs1 where
    bb: "GCTaskILEWCTrainer_batch_backward self ts m b = Inr m1"
    and acc: "GCTaskILEWCTrainer_accumulate m1 (length (labels b)) ps fs = Inr (ps1, fs1)"
    and rest: "GCTaskILEWCTrainer_fisher_loop self ts bs m1 (N + length (labels b)) ps1 fs1
                 = Inr (m', N', ps', fs')"
    by (auto split: sum.splits prod.splits)
  let ?n = "length (labels b)"
  have tr: "backward_trace self ts (b # bs) m = (m1, ?n) # backward_trace self ts bs m1"
    by (simp add: bb)
  from Cons.prems(2) [unfolded tr] have d1: "distinct (map fst m1)"
    and dr: "\<forall>(mi, n) \<in> set (backward_trace self ts bs m1). distinct (map fst mi)"
    by simp_all
  from Cons.prems(3) [unfolded tr] have fg1: "\<forall>g. grad_of m1 name = Some g \<longrightarrow> finite_tensor g"
    and fgr: "finite_grads name (backward_trace self ts bs m1)"
    by (simp_all add: finite_grads_iff)
  let ?c = "\<lambda>j. case grad_of m1 name of None \<Rightarrow> 0
                 | Some g \<Rightarrow> (fl_val (g ! j)) ^ 2 * of_nat ?n"
  have "\<exists>f1. fs1 name = Some f1 \<and> length f1 = length f \<and>
          (\<forall>j<length f. f1 ! j = Fin (a j + ?c j))"
  proof (cases "grad_of m1 name")
    case None
    with accumulate_lookup [OF d1 acc, of name] Cons.prems(4,5) show ?thesis
      by simp
  next
    case (Some g)
    with accumulate_lookup [OF d1 acc, of name] Cons.prems(4) obtain f1 where
      f1: "tensor_add f (tensor_mul_int (tensor_pow2 g) ?n) = Inr f1" "fs1 name = Some f1"
      by auto
    from fg1 Some have "finite_tensor g" by simp
    from accumulate_finite_step [OF f1(1) this Cons.prems(5)] f1(2) Some show ?thesis
      by simp
  qed
  then obtain f1 where f1: "fs1 name = Some f1" "length f1 = length f"
    "\<forall>j<length f1. f1 ! j = Fin (a j + ?c j)"
    by auto
  from Cons.IH [OF rest dr fgr f1(1) f1(3)] f1(2) show ?case
    unfolding tr by (simp add: weighted_sq_grads_Cons add.assoc)
qed

lemma fisher_loop_total:
  assumes "GCTaskILEWCTrainer_fisher_loop self ts bs m N ps fs = Inr (m', N', ps', fs')"
  shows "N' = N + total_items (backward_trace self ts bs m) \<and>
         map snd (backward_trace self ts bs m) = map (\<lambda>b. length (labels b)) bs \<and>
         m' = last (m # map fst (backward_trace self ts bs m))"
  using assms
proof (induction bs arbitrary: m N ps fs)
  case Nil
  then show ?case by (simp add: total_items_def)
next
  case (Cons b bs)
  from Cons.prems(1) obtain m1 ps1 fs1 where
    bb: "GCTaskILEWCTrainer_batch_backward self ts m b = Inr m1"
    and rest: "GCTaskILEWCTrainer_fisher_loop self ts bs m1 (N + length (labels b)) ps1 fs1
                 = Inr (m', N', ps', fs')"
    by (auto split: sum.splits prod.splits)
  from Cons.IH [OF rest] show ?case
    by (simp add: bb total_items_def)
qed

lemma fisher_loop_snapshot:
  assumes "GCTaskILEWCTrainer_fisher_loop self ts bs m N ps fs = Inr (m', N', ps', fs')"
    and "bs \<noteq> []" and "distinct (map fst m')" and "map_of m' name = Some p"
  shows "ps' name = Some (data p)"
  using assms
proof (induction bs arbitrary: m N ps fs)
  case Nil
  then show ?case by simp
next
  case (Cons b bs)
  from Cons.prems(1) obtain m1 ps1 fs1 where
    acc: "GCTaskILEWCTrainer_accumulate m1 (length (labels b)) ps fs = Inr (ps1, fs1)"
    and rest: "GCTaskILEWCTrainer_fisher_loop self ts bs m1 (N + length (labels b)) ps1 fs1
                 = Inr (m', N', ps', fs')"
    by (auto split: sum.splits prod.splits)
  show ?case
  proof (cases "bs = []")
    case True
    with rest have "m' = m1" "ps' = ps1" by simp_all
    with accumulate_lookup [OF _ acc, of name] Cons.prems(3,4) show ?thesis
      by simp
  next
    case False
    from Cons.IH [OF rest False Cons.prems(3,4)] show ?thesis .
  qed
qed


subsection \<open>The whole estimation\<close>

lemma estimate_unfold:
  assumes "GCTaskILEWCTrainer_processAfterTraining self tid ds m ts = (Inr m', ts')"
    and "super_processAfterTraining self tid ds m ts = Inr m0"
    and "prepareLoader self ds ts = Inr bs"
  shows "\<exists>N ps fs fs'.
           GCTaskILEWCTrainer_fisher_loop self ts bs m0 0 (zeros_dict m0 Map.empty)
             (zeros_dict m0 Map.empty) = Inr (m', N, ps, fs) \<and>
           GCTaskILEWCTrainer_normalize m' N fs = Inr fs' \<and>
           ts' = ts\<lparr>fishers := fishers ts @ [fs'], params := params ts @ [ps]\<rparr>"
  using assms
  by (auto simp: GCTaskILEWCTrainer_processAfterTraining_def split: sum.splits prod.splits)

lemma fl_div_total: "0 < N \<Longrightarrow> fl_div (Fin x) (fl_of_nat N) = Fin (x / of_nat N)"
  by (simp add: fl_of_nat_def)

lemma fisher_estimate_formula:
  assumes "GCTaskILEWCTrainer_processAfterTraining self tid ds m ts = (Inr m', ts')"
    and "super_processAfterTraining self tid ds m ts = Inr m0"
    and "prepareLoader self ds ts = Inr bs"
    and "stable_names m0 (backward_trace self ts bs m0)"
    and "finite_grads name (backward_trace self ts bs m0)"
    and "0 < total_items (backward_trace self ts bs m0)"
    and "map_of m0 name = Some p0"
  shows "\<exists>f. last (fishers ts') name = Some f \<and> length f = length (data p0) \<and>
           (\<forall>j<length f. f ! j = Fin (fisher_spec name j (backward_trace self ts bs m0)))"
proof -
  let ?tr = "backward_trace self ts bs m0"
  let ?Z = "zeros_dict m0 Map.empty"
  from estimate_unfold [OF assms(1-3)] obtain N ps fs fs' where
    loop: "GCTaskILEWCTrainer_fisher_loop self ts bs m0 0 ?Z ?Z = Inr (m', N, ps, fs)"
    and norm: "GCTaskILEWCTrainer_normalize m' N fs = Inr fs'"
    and ts': "ts' = ts\<lparr>fishers := fishers ts @ [fs'], params := params ts @ [ps]\<rparr>"
    by blast
  from assms(4) have d0: "distinct (map fst m0)"
    and same: "\<forall>(mi, n) \<in> set ?tr. map fst mi = map fst m0"
    by (simp_all add: stable_names_def)
  from same d0 have dtr: "\<forall>(mi, n) \<in> set ?tr. distinct (map fst mi)"
    by auto
  have z: "?Z name = Some (zeros_like (data p0))"
    by (rule zeros_dict_lookup [OF d0 assms(7)])
  have z0: "\<forall>j<length (zeros_like (data p0)). zeros_like (data p0) ! j = Fin ((\<lambda>j. 0) j)"
    by (simp add: zeros_like_def)
  from fisher_loop_lookup [OF loop dtr assms(5) z z0] obtain f1 where
    f1: "fs name = Some f1" "length f1 = length (data p0)"
    "\<forall>j<length f1. f1 ! j = Fin (weighted_sq_grads name j ?tr)"
    by (auto simp: zeros_like_def)
  from fisher_loop_total [OF loop] have N: "N = total_items ?tr"
    and m': "m' = last (m0 # map fst ?tr)"
    by simp_all
  from assms(6) have "?tr \<noteq> []"
    by (auto simp: total_items_def)
  with m' have "m' \<in> fst ` set ?tr"
    by (simp add: last_map)
  with same have names: "map fst m' = map fst m0"
    by auto
  from assms(7) have "name \<in> fst ` set m0"
    by (metis map_of_eq_None_iff option.distinct(1))
  with names have in_m': "name \<in> fst ` set m'"
    by (metis list.set_map)
  from names d0 have "distinct (map fst m')" by simp
  from normalize_lookup [OF this norm, of name] in_m' f1(1)
  have fs': "fs' name = Some (tensor_div_int f1 N)"
    by simp
  have "tensor_div_int f1 N ! j = Fin (fisher_spec name j ?tr)" if "j < length f1" for j
    using that f1(3) assms(6) N
    by (simp add: tensor_div_int_def fl_div_total fisher_spec_def)
  with fs' f1(2) show ?thesis
    by (simp add: ts' tensor_div_int_def)
qed

lemma weighted_sq_grads_nonneg: "0 \<le> weighted_sq_grads name j tr"
  unfolding weighted_sq_grads_def
  by (rule sum_list_nonneg) (auto split: option.splits)

lemma weighted_sq_grads_absent:
  "\<forall>(m, n) \<in> set tr. grad_of m name = None \<Longrightarrow> weighted_sq_grads name j tr = 0"
  by (induction tr) (auto simp: weighted_sq_grads_def)

subsection \<open>The concrete trainers on their batches\<close>

lemma demo_trace:
  "backward_trace (demo_trainer g) ts [demo_batch 3, demo_batch 5] demo_model =
     [(demo_model_after g, 3), (demo_model_after g, 5)]"
  by (simp add: demo_batch_backward demo_batch_def demo_model_def demo_model_after_def)

lemma demo_trace_hyps:
  "stable_names demo_model [(demo_model_after g, 3), (demo_model_after g, 5)]"
  "finite_grads name [(demo_model_after g, 3), (demo_model_after g, 5)]"
  "total_items [(demo_model_after g, 3), (demo_model_after g, 5)] = 8"
  by (auto simp: stable_names_def finite_grads_iff total_items_def demo_model_def
      demo_model_after_def grad_of_def finite_tensor_def split: if_splits)

lemma demo_weighted:
  "weighted_sq_grads ''w'' 0 [(demo_model_after g, 3), (demo_model_after g, 5)] = 8 * g\<^sup>2"
  "\<forall>(mi, n) \<in> set [(demo_model_after g, 3), (demo_model_after g, 5)].
      grad_of mi ''frozen'' = None"
  by (simp_all add: weighted_sq_grads_def grad_of_def demo_model_after_def)

lemma drift_batch_backward:
  "labels b \<noteq> [] \<Longrightarrow> GCTaskILEWCTrainer_batch_backward drift_trainer ts m b =
     Inr (map (\<lambda>(n, p).
       (n, \<lparr>data = map (\<lambda>x. fl_add x (Fin 1)) (data p), grad = Some (data p)\<rparr>)) m)"
  by (simp add: GCTaskILEWCTrainer_batch_backward_def drift_trainer_def demo_trainer_def
      case_prod_unfold comp_def)

lemma drift_trainer_simps:
  "prepareLoader drift_trainer d ts = Inr d"
  "super_processAfterTraining drift_trainer t d m ts = Inr m"
  by (simp_all add: drift_trainer_def demo_trainer_def)

lemma drift_estimate:
  "GCTaskILEWCTrainer_processAfterTraining drift_trainer 0 [demo_batch 1, demo_batch 1]
     demo_w_model ts =
   (Inr [(''w'', \<lparr>data = [Fin (7 / 2)], grad = Some [Fin (5 / 2)]\<rparr>)],
    ts\<lparr>fishers := fishers ts @ [[''w'' \<mapsto> [Fin (17 / 4)]]],
       params := params ts @ [[''w'' \<mapsto> [Fin (7 / 2)]]]\<rparr>)"
  by (simp add: GCTaskILEWCTrainer_processAfterTraining_def drift_batch_backward
      drift_trainer_simps demo_w_model_def demo_batch_def zeros_like_def
      tensor_add_def tensor_mul_int_def tensor_pow2_def tensor_div_int_def fl_of_nat_def)

lemma drift_trace:
  "backward_trace drift_trainer ts [demo_batch 1, demo_batch 1] demo_w_model =
     [([(''w'', \<lparr>data = [Fin (5 / 2)], grad = Some [Fin (3 / 2)]\<rparr>)], 1),
      ([(''w'', \<lparr>data = [Fin (7 / 2)], grad = Some [Fin (5 / 2)]\<rparr>)], 1)]"
  by (simp add: drift_batch_backward demo_batch_def demo_w_model_def)

text \<open>The trainer with the NaN gradient on one batch of two items.\<close>

lemma nan_trace:
  "backward_trace nan_trainer ts [demo_batch 2] demo_w_model =
     [([(''w'', \<lparr>data = [Fin (3 / 2)], grad = Some [NaN]\<rparr>)], 2)]"
  by (simp add: GCTaskILEWCTrainer_batch_backward_def nan_trainer_def demo_trainer_def
      demo_batch_def demo_w_model_def)

lemma nan_estimate:
  "GCTaskILEWCTrainer_processAfterTraining nan_trainer 0 [demo_batch 2] demo_w_model ts =
     (Inr [(''w'', \<lparr>data = [Fin (3 / 2)], grad = Some [NaN]\<rparr>)],
      ts\<lparr>fishers := fishers ts @ [[''w'' \<mapsto> [NaN]]],
         params := params ts @ [[''w'' \<mapsto> [Fin (3 / 2)]]]\<rparr>)"
  by (simp add: GCTaskILEWCTrainer_processAfterTraining_def GCTaskILEWCTrainer_batch_backward_def
      nan_trainer_def demo_trainer_def demo_batch_def demo_w_model_def zeros_like_def
      tensor_add_def tensor_mul_int_def tensor_pow2_def tensor_div_int_def fl_of_nat_def)

subsection \<open>A pass without items\<close>

lemma fl_mul_zero_cases: "fl_mul y (Fin 0) = Fin 0 \<or> fl_mul y (Fin 0) = NaN"
  by (cases y) simp_all

lemma fl_add_zero_or_nan:
  "x = Fin 0 \<or> x = NaN \<Longrightarrow> y = Fin 0 \<or> y = NaN \<Longrightarrow> fl_add x y = Fin 0 \<or> fl_add x y = NaN"
  by auto

lemma fl_div_zero: "x = Fin 0 \<or> x = NaN \<Longrightarrow> fl_div x (fl_of_nat 0) = NaN"
  by (auto simp: fl_of_nat_def)

lemma zero_or_nan_zeros: "zero_or_nan (zeros_like t)"
  by (simp add: zero_or_nan_def zeros_like_def)

lemma zero_or_nan_replicate_NaN: "zero_or_nan (replicate n NaN)"
  by (simp add: zero_or_nan_def)

lemma tensor_add_no_items:
  assumes "tensor_add f (tensor_mul_int (tensor_pow2 g) 0) = Inr f'" and "zero_or_nan f"
  shows "zero_or_nan f'"
proof -
  from assms(1) have len: "length f = length g"
    and f': "f' = map2 fl_add f (map (\<lambda>x. fl_mul (fl_mul x x) (Fin 0)) g)"
    by (auto simp: tensor_add_def tensor_mul_int_def tensor_pow2_def fl_of_nat_def comp_def
        split: if_splits)
  have "x = Fin 0 \<or> x = NaN" if "x \<in> set f'" for x
  proof -
    from that f' obtain a b where
      ab: "(a, b) \<in> set (zip f (map (\<lambda>x. fl_mul (fl_mul x x) (Fin 0)) g))" "x = fl_add a b"
      by auto
    from ab(1) have a: "a \<in> set f" and "b \<in> set (map (\<lambda>x. fl_mul (fl_mul x x) (Fin 0)) g)"
      by (auto dest: set_zip_leftD set_zip_rightD)
    then obtain y where "b = fl_mul (fl_mul y y) (Fin 0)"
      by auto
    then have b: "b = Fin 0 \<or> b = NaN"
      using fl_mul_zero_cases by simp
    from a assms(2) have "a = Fin 0 \<or> a = NaN"
      by (simp add: zero_or_nan_def)
    from fl_add_zero_or_nan [OF this b] ab(2) show ?thesis
      by simp
  qed
  then show ?thesis by (simp add: zero_or_nan_def)
qed

lemma tensor_div_no_items: "zero_or_nan f \<Longrightarrow> tensor_div_int f 0 = replicate (length f) NaN"
  by (simp add: tensor_div_int_def zero_or_nan_def fl_div_zero map_replicate_const [symmetric])

lemma zero_or_nan_dict_empty: "zero_or_nan_dict Map.empty"
  by (simp add: zero_or_nan_dict_def)

lemma zero_or_nan_dict_upd:
  "zero_or_nan_dict d \<Longrightarrow> zero_or_nan f \<Longrightarrow> zero_or_nan_dict (d(n \<mapsto> f))"
  by (simp add: zero_or_nan_dict_def)

lemma zero_or_nan_dict_lookup: "zero_or_nan_dict d \<Longrightarrow> d n = Some f \<Longrightarrow> zero_or_nan f"
  by (simp add: zero_or_nan_dict_def)

lemma zeros_dict_invariant:
  "zero_or_nan_dict d \<Longrightarrow>
   zero_or_nan_dict (zeros_dict m d) \<and> dom (zeros_dict m d) = dom d \<union> fst ` set m"
proof (induction m arbitrary: d)
  case Nil
  then show ?case by simp
next
  case (Cons np m)
  obtain n0 p0 where np: "np = (n0, p0)" by (cases np)
  from Cons.prems have "zero_or_nan_dict (d(n0 \<mapsto> zeros_like (data p0)))"
    by (rule zero_or_nan_dict_upd) (rule zero_or_nan_zeros)
  from Cons.IH [OF this]
  have "zero_or_nan_dict (zeros_dict m (d(n0 \<mapsto> zeros_like (data p0)))) \<and>
        dom (zeros_dict m (d(n0 \<mapsto> zeros_like (data p0)))) =
          dom (d(n0 \<mapsto> zeros_like (data p0))) \<union> fst ` set m" .
  then show ?case
    by (simp add: np)
qed

lemma accumulate_no_items:
  assumes "GCTaskILEWCTrainer_accumulate m 0 ps fs = Inr (ps', fs')"
    and "zero_or_nan_dict fs"
  shows "zero_or_nan_dict fs' \<and> dom fs' = dom fs"
  using assms
proof (induction m arbitrary: ps fs)
  case Nil
  then show ?case by simp
next
  case (Cons np m)
  obtain n0 p0 where np: "np = (n0, p0)" by (cases np)
  show ?case
  proof (cases "grad p0")
    case None
    with Cons.prems(1) np
    have step: "GCTaskILEWCTrainer_accumulate m 0 (ps(n0 \<mapsto> data p0)) fs = Inr (ps', fs')"
      by simp
    from Cons.IH [OF step Cons.prems(2)] show ?thesis .
  next
    case (Some g0)
    with Cons.prems(1) np obtain f0 f0' where
      f0: "fs n0 = Some f0" "tensor_add f0 (tensor_mul_int (tensor_pow2 g0) 0) = Inr f0'"
      and step: "GCTaskILEWCTrainer_accumulate m 0 (ps(n0 \<mapsto> data p0)) (fs(n0 \<mapsto> f0'))
                   = Inr (ps', fs')"
      by (auto split: option.splits sum.splits)
    from zero_or_nan_dict_lookup [OF Cons.prems(2) f0(1)] have "zero_or_nan f0" .
    from tensor_add_no_items [OF f0(2) this] have "zero_or_nan f0'" .
    from zero_or_nan_dict_upd [OF Cons.prems(2) this]
    have inv: "zero_or_nan_dict (fs(n0 \<mapsto> f0'))" .
    from Cons.IH [OF step inv]
    have "zero_or_nan_dict fs' \<and> dom fs' = dom (fs(n0 \<mapsto> f0'))" .
    moreover from f0(1) have "dom (fs(n0 \<mapsto> f0')) = dom fs"
      by (simp add: insert_absorb domI)
    ultimately show ?thesis
      by simp
  qed
qed

lemma fisher_loop_no_items:
  assumes "GCTaskILEWCTrainer_fisher_loop self ts bs m N ps fs = Inr (m', N', ps', fs')"
    and "\<forall>b \<in> set bs. labels b = []"
    and "zero_or_nan_dict fs"
  shows "zero_or_nan_dict fs' \<and> dom fs' = dom fs \<and> N' = N"
  using assms
proof (induction bs arbitrary: m N ps fs)
  case Nil
  then show ?case by simp
next
  case (Cons b bs)
  from Cons.prems(2) have b: "length (labels b) = 0" and bs: "\<forall>b \<in> set bs. labels b = []"
    by simp_all
  from Cons.prems(1) b obtain m1 ps1 fs1 where
    acc: "GCTaskILEWCTrainer_accumulate m1 0 ps fs = Inr (ps1, fs1)"
    and rest: "GCTaskILEWCTrainer_fisher_loop self ts bs m1 N ps1 fs1 = Inr (m', N', ps', fs')"
    by (auto split: sum.splits prod.splits)
  from accumulate_no_items [OF acc Cons.prems(3)]
  have inv: "zero_or_nan_dict fs1" and dom: "dom fs1 = dom fs"
    by simp_all
  from Cons.IH [OF rest bs inv] dom show ?case
    by simp
qed

lemma normalize_no_items:
  assumes "zero_or_nan_dict fs" and "fst ` set m \<subseteq> dom fs"
  shows "\<exists>fs'. GCTaskILEWCTrainer_normalize m 0 fs = Inr fs' \<and>
           (\<forall>name. fs' name =
              (if name \<in> fst ` set m
               then map_option (\<lambda>f. replicate (length f) NaN) (fs name) else fs name))"
  using assms
proof (induction m arbitrary: fs)
  case Nil
  then show ?case by simp
next
  case (Cons np m)
  obtain n0 p0 where np: "np = (n0, p0)" by (cases np)
  from Cons.prems(2) np obtain f0 where f0: "fs n0 = Some f0"
    by auto
  from zero_or_nan_dict_lookup [OF Cons.prems(1) f0] have zf0: "zero_or_nan f0" .
  define fs1 where "fs1 = fs(n0 \<mapsto> tensor_div_int f0 0)"
  have d: "tensor_div_int f0 0 = replicate (length f0) NaN"
    by (rule tensor_div_no_items [OF zf0])
  have inv: "zero_or_nan_dict fs1"
    unfolding fs1_def d
    by (rule zero_or_nan_dict_upd [OF Cons.prems(1) zero_or_nan_replicate_NaN])
  from Cons.prems(2) have sub: "fst ` set m \<subseteq> dom fs1"
    by (auto simp: np fs1_def)
  from Cons.IH [OF inv sub] obtain fs' where
    fs': "GCTaskILEWCTrainer_normalize m 0 fs1 = Inr fs'"
    "\<forall>name. fs' name =
              (if name \<in> fst ` set m
               then map_option (\<lambda>f. replicate (length f) NaN) (fs1 name) else fs1 name)"
    by blast
  have "fs' name =
              (if name \<in> fst ` set (np # m)
               then map_option (\<lambda>f. replicate (length f) NaN) (fs name) else fs name)"
    for name
    using fs'(2) by (simp add: np f0 d fs1_def)
  with fs'(1) show ?case
    by (simp add: np f0 fs1_def)
qed

subsection \<open>When the estimation returns\<close>

lemma shaped_like_upd:
  assumes "shaped_like m0 d" and "d name = Some f" and "length f' = length f"
  shows "shaped_like m0 (d(name \<mapsto> f'))"
  using assms by (fastforce simp: shaped_like_iff)

lemma shaped_like_zeros: "distinct (map fst m0) \<Longrightarrow> shaped_like m0 (zeros_dict m0 Map.empty)"
  unfolding shaped_like_iff
proof clarify
  fix name p0
  assume d: "distinct (map fst m0)" and "(name, p0) \<in> set m0"
  then have "map_of m0 name = Some p0" by simp
  from zeros_dict_lookup [OF d this]
  show "\<exists>f. zeros_dict m0 Map.empty name = Some f \<and> length f = length (data p0)"
    by (simp add: zeros_like_def)
qed

lemma shaped_like_lookup:
  "shaped_like m0 d \<Longrightarrow> distinct (map fst m0) \<Longrightarrow> map_of m0 name = Some p0 \<Longrightarrow>
   \<exists>f. d name = Some f \<and> length f = length (data p0)"
  by (auto simp: shaped_like_iff dest: map_of_SomeD)

lemma accumulate_returns:
  assumes "shaped_like m0 fs" and "distinct (map fst m0)"
    and "\<forall>(name, p) \<in> set m. \<forall>g. grad p = Some g \<longrightarrow>
           (\<exists>p0. map_of m0 name = Some p0 \<and> length g = length (data p0))"
  shows "\<exists>ps' fs'. GCTaskILEWCTrainer_accumulate m n ps fs = Inr (ps', fs') \<and>
           shaped_like m0 fs'"
  using assms(1,3)
proof (induction m arbitrary: ps fs)
  case Nil
  then show ?case by simp
next
  case (Cons np m)
  obtain n0 p where np: "np = (n0, p)" by (cases np)
  from Cons.prems(2) have rest: "\<forall>(name, p) \<in> set m. \<forall>g. grad p = Some g \<longrightarrow>
           (\<exists>p0. map_of m0 name = Some p0 \<and> length g = length (data p0))"
    by simp
  show ?case
  proof (cases "grad p")
    case None
    from Cons.IH [OF Cons.prems(1) rest]
    have "\<exists>ps' fs'. GCTaskILEWCTrainer_accumulate m n (ps(n0 \<mapsto> data p)) fs = Inr (ps', fs') \<and>
           shaped_like m0 fs'" .
    with None show ?thesis
      by (simp add: np)
  next
    case (Some g)
    with Cons.prems(2) np obtain p0 where
      p0: "map_of m0 n0 = Some p0" "length g = length (data p0)"
      by auto
    from shaped_like_lookup [OF Cons.prems(1) assms(2) p0(1)] obtain f where
      f: "fs n0 = Some f" "length f = length (data p0)"
      by blast
    define f' where "f' = map2 fl_add f (tensor_mul_int (tensor_pow2 g) n)"
    from f(2) p0(2) have add: "tensor_add f (tensor_mul_int (tensor_pow2 g) n) = Inr f'"
      and len: "length f' = length f"
      by (simp_all add: tensor_add_def tensor_mul_int_def tensor_pow2_def f'_def)
    have "shaped_like m0 (fs(n0 \<mapsto> f'))"
      by (rule shaped_like_upd [OF Cons.prems(1) f(1) len])
    from Cons.IH [OF this rest]
    have "\<exists>ps' fs'. GCTaskILEWCTrainer_accumulate m n (ps(n0 \<mapsto> data p)) (fs(n0 \<mapsto> f'))
            = Inr (ps', fs') \<and> shaped_like m0 fs'" .
    then obtain ps' fs' where
      "GCTaskILEWCTrainer_accumulate m n (ps(n0 \<mapsto> data p)) (fs(n0 \<mapsto> f')) = Inr (ps', fs')"
      "shaped_like m0 fs'"
      by blast
    with Some f(1) add show ?thesis
      by (simp add: np)
  qed
qed

lemma fisher_loop_returns:
  assumes "length (backward_trace self ts bs m) = length bs"
    and "grads_fit m0 (backward_trace self ts bs m)"
    and "shaped_like m0 fs" and "distinct (map fst m0)"
  shows "\<exists>m' N' ps' fs'.
           GCTaskILEWCTrainer_fisher_loop self ts bs m N ps fs = Inr (m', N', ps', fs') \<and>
           shaped_like m0 fs'"
  using assms(1-3)
proof (induction bs arbitrary: m N ps fs)
  case Nil
  then show ?case by simp
next
  case (Cons b bs)
  from Cons.prems(1) obtain m1 where
    bb: "GCTaskILEWCTrainer_batch_backward self ts m b = Inr m1"
    by (cases "GCTaskILEWCTrainer_batch_backward self ts m b") simp_all
  then have tr: "backward_trace self ts (b # bs) m =
      (m1, length (labels b)) # backward_trace self ts bs m1"
    by simp
  from Cons.prems(1) [unfolded tr] have len: "length (backward_trace self ts bs m1) = length bs"
    by simp
  from Cons.prems(2) [unfolded tr] have g1: "\<forall>(name, p) \<in> set m1. \<forall>g. grad p = Some g \<longrightarrow>
           (\<exists>p0. map_of m0 name = Some p0 \<and> length g = length (data p0))"
    and gr: "grads_fit m0 (backward_trace self ts bs m1)"
    by (simp_all add: grads_fit_iff)
  from accumulate_returns [OF Cons.prems(3) assms(4) g1, of "length (labels b)" ps]
  obtain ps1 fs1 where
    acc: "GCTaskILEWCTrainer_accumulate m1 (length (labels b)) ps fs = Inr (ps1, fs1)"
    and sh: "shaped_like m0 fs1"
    by blast
  from Cons.IH [OF len gr sh, of "N + length (labels b)" ps1] bb acc show ?case
    by simp
qed

lemma normalize_returns:
  assumes "shaped_like m0 fs" and "fst ` set m \<subseteq> fst ` set m0"
  shows "\<exists>fs'. GCTaskILEWCTrainer_normalize m N fs = Inr fs'"
  using assms
proof (induction m arbitrary: fs)
  case Nil
  then show ?case by simp
next
  case (Cons np m)
  obtain n0 p where np: "np = (n0, p)" by (cases np)
  from Cons.prems(2) np obtain p0 where "(n0, p0) \<in> set m0"
    by auto
  with Cons.prems(1) obtain f where f: "fs n0 = Some f" "length f = length (data p0)"
    by (auto simp: shaped_like_iff)
  have "shaped_like m0 (fs(n0 \<mapsto> tensor_div_int f N))"
    by (rule shaped_like_upd [OF Cons.prems(1) f(1)]) (simp add: tensor_div_int_def)
  moreover from Cons.prems(2) have "fst ` set m \<subseteq> fst ` set m0"
    by simp
  ultimately have "\<exists>fs'. GCTaskILEWCTrainer_normalize m N (fs(n0 \<mapsto> tensor_div_int f N))
      = Inr fs'"
    by (rule Cons.IH)
  then obtain fs' where
    "GCTaskILEWCTrainer_normalize m N (fs(n0 \<mapsto> tensor_div_int f N)) = Inr fs'"
    by blast
  with f(1) show ?case
    by (simp add: np)
qed

lemma processAfterTraining_returns:
  assumes "super_processAfterTraining self tid ds m ts = Inr m0"
    and "prepareLoader self ds ts = Inr bs"
    and "length (backward_trace self ts bs m0) = length bs"
    and "stable_names m0 (backward_trace self ts bs m0)"
    and "grads_fit m0 (backward_trace self ts bs m0)"
  shows "\<exists>m' ts'. GCTaskILEWCTrainer_processAfterTraining self tid ds m ts = (Inr m', ts')"
proof -
  let ?tr = "backward_trace self ts bs m0"
  from assms(4) have d0: "distinct (map fst m0)"
    and same: "\<forall>(mi, n) \<in> set ?tr. map fst mi = map fst m0"
    by (simp_all add: stable_names_def)
  from fisher_loop_returns [OF assms(3,5) shaped_like_zeros [OF d0] d0, of 0
      "zeros_dict m0 Map.empty"]
  obtain m' N ps fs where
    loop: "GCTaskILEWCTrainer_fisher_loop self ts bs m0 0 (zeros_dict m0 Map.empty)
             (zeros_dict m0 Map.empty) = Inr (m', N, ps, fs)"
    and sh: "shaped_like m0 fs"
    by blast
  from fisher_loop_total [OF loop] have m': "m' = last (m0 # map fst ?tr)"
    by simp
  have "map fst m' = map fst m0"
  proof (cases "?tr = []")
    case True
    with m' show ?thesis by simp
  next
    case False
    with m' have "m' \<in> fst ` set ?tr" by (simp add: last_map)
    with same show ?thesis by auto
  qed
  then have "fst ` set m' \<subseteq> fst ` set m0"
    by (metis list.set_map order_refl)
  from normalize_returns [OF sh this, of N] obtain fs' where
    "GCTaskILEWCTrainer_normalize m' N fs = Inr fs'"
    by blast
  with assms(1,2) loop show ?thesis
    by (simp add: GCTaskILEWCTrainer_processAfterTraining_def)
qed

lemma demo_grads_fit: "grads_fit demo_model [(demo_model_after g, 3), (demo_model_after g, 5)]"
  by (simp add: grads_fit_iff demo_model_def demo_model_after_def)

lemma estimate_returns_formula:
  assumes "super_processAfterTraining self tid ds m ts = Inr m0"
    and "prepareLoader self ds ts = Inr bs"
    and "length (backward_trace self ts bs m0) = length bs"
    and "stable_names m0 (backward_trace self ts bs m0)"
    and "grads_fit m0 (backward_trace self ts bs m0)"
    and "finite_grads name (backward_trace self ts bs m0)"
    and "0 < (\<Sum>b\<leftarrow>bs. length (labels b))"
    and "map_of m0 name = Some p0"
  shows "fst (GCTaskILEWCTrainer_processAfterTraining self tid ds m ts)
           = Inr (fst (last (backward_trace self ts bs m0))) \<and>
         total_items (backward_trace self ts bs m0) = (\<Sum>b\<leftarrow>bs. length (labels b)) \<and>
         (\<exists>f. last (fishers (snd (GCTaskILEWCTrainer_processAfterTraining self tid ds m ts)))
                name = Some f \<and> length f = length (data p0) \<and>
            (\<forall>j<length f. f ! j = Fin (fisher_spec name j (backward_trace self ts bs m0))))"
proof -
  let ?tr = "backward_trace self ts bs m0"
  from processAfterTraining_returns [OF assms(1-5)] obtain m' ts' where
    r: "GCTaskILEWCTrainer_processAfterTraining self tid ds m ts = (Inr m', ts')"
    by blast
  from estimate_unfold [OF r assms(1,2)] obtain N ps fs where
    loop: "GCTaskILEWCTrainer_fisher_loop self ts bs m0 0 (zeros_dict m0 Map.empty)
       (zeros_dict m0 Map.empty) = Inr (m', N, ps, fs)"
    by blast
  from fisher_loop_total [OF loop]
  have tot: "total_items ?tr = (\<Sum>b\<leftarrow>bs. length (labels b))"
    and m': "m' = last (m0 # map fst ?tr)"
    by (simp_all add: total_items_def)
  from assms(7) tot have pos: "0 < total_items ?tr" by simp
  then have "?tr \<noteq> []" by (auto simp: total_items_def)
  with m' have "m' = fst (last ?tr)" by (simp add: last_map)
  with fisher_estimate_formula [OF r assms(1,2,4,6) pos assms(8)] tot r show ?thesis
    by simp
qed

section \<open>Lemmas on the store\<close>

text \<open>
  The methods on the store compute what the methods on values compute, and write only into
  cells of the live model and into cells they made themselves.
\<close>

subsection \<open>Writing a model in place\<close>

lemma live_addrs_Cons: "live_addrs ((n, r) # hm) = pref_addrs r @ live_addrs hm"
  by (simp add: live_addrs_def)

lemma write_param_frame:
  "write_param h r p = (h1, r') \<Longrightarrow> a < length h \<Longrightarrow> a \<notin> set (pref_addrs r) \<Longrightarrow>
   h1 ! a = h ! a"
  by (auto simp: write_param_def pref_addrs_def Let_def nth_append split: option.splits)

lemma write_param_length:
  "write_param h r p = (h1, r') \<Longrightarrow> length h \<le> length h1"
  by (auto simp: write_param_def Let_def split: option.splits)

lemma write_param_addrs:
  "write_param h r p = (h1, r') \<Longrightarrow>
   set (pref_addrs r') \<subseteq> set (pref_addrs r) \<union> {length h ..< length h1}"
  by (auto simp: write_param_def pref_addrs_def Let_def split: option.splits)

lemma write_param_view:
  assumes "write_param h r p = (h1, r')" and "distinct (pref_addrs r)"
    and "\<forall>a \<in> set (pref_addrs r). a < length h"
  shows "param_view h1 r' = p \<and> distinct (pref_addrs r') \<and>
         (\<forall>a \<in> set (pref_addrs r'). a < length h1)"
  using assms
  by (cases p) (auto simp: write_param_def pref_addrs_def param_view_def Let_def nth_append
      split: option.splits)

lemma fresh_param_facts:
  assumes "fresh_param h p = (h1, r)"
  shows "param_view h1 r = p" and "distinct (pref_addrs r)"
    and "set (pref_addrs r) \<subseteq> {length h ..< length h1}"
    and "length h \<le> length h1" and "\<And>a. a < length h \<Longrightarrow> h1 ! a = h ! a"
  using assms
  by (cases p; auto simp: fresh_param_def pref_addrs_def param_view_def nth_append
      split: option.splits)+

lemma live_addrs_Nil: "live_addrs [] = []"
  by (simp add: live_addrs_def)

lemma param_view_cong:
  "\<forall>a \<in> set (pref_addrs r). h' ! a = h ! a \<Longrightarrow> param_view h' r = param_view h r"
  by (cases "grad_at r") (simp_all add: param_view_def pref_addrs_def)

lemma commit_length: "commit h hm m' = (h2, hm2) \<Longrightarrow> length h \<le> length h2"
proof (induction h hm m' arbitrary: h2 hm2 rule: commit.induct)
  case (1 h hm)
  then show ?case by simp
next
  case (2 h n p m')
  obtain h1 r where f: "fresh_param h p = (h1, r)" by (cases "fresh_param h p")
  obtain h3 hm3 where c: "commit h1 [] m' = (h3, hm3)" by (cases "commit h1 [] m'")
  from "2.prems" f c have "h2 = h3" by simp
  with "2.IH" [OF f [symmetric] c] fresh_param_facts(4) [OF f] show ?case by simp
next
  case (3 h n0 r hm n p m')
  obtain h1 r' where w: "write_param h r p = (h1, r')" by (cases "write_param h r p")
  obtain h3 hm3 where c: "commit h1 hm m' = (h3, hm3)" by (cases "commit h1 hm m'")
  from "3.prems" w c have "h2 = h3" by simp
  with "3.IH" [OF w [symmetric] c] write_param_length [OF w] show ?case by simp
qed

lemma commit_frame:
  "commit h hm m' = (h2, hm2) \<Longrightarrow> a < length h \<Longrightarrow> a \<notin> set (live_addrs hm) \<Longrightarrow>
   h2 ! a = h ! a"
proof (induction h hm m' arbitrary: h2 hm2 rule: commit.induct)
  case (1 h hm)
  then show ?case by simp
next
  case (2 h n p m')
  obtain h1 r where f: "fresh_param h p = (h1, r)" by (cases "fresh_param h p")
  obtain h3 hm3 where c: "commit h1 [] m' = (h3, hm3)" by (cases "commit h1 [] m'")
  from "2.prems"(1) f c have h2: "h2 = h3" by simp
  from fresh_param_facts(4,5) [OF f] "2.prems"(2) have "a < length h1" "h1 ! a = h ! a"
    by simp_all
  with "2.IH" [OF f [symmetric] c] h2 show ?case
    by (simp add: live_addrs_Nil)
next
  case (3 h n0 r hm n p m')
  obtain h1 r' where w: "write_param h r p = (h1, r')" by (cases "write_param h r p")
  obtain h3 hm3 where c: "commit h1 hm m' = (h3, hm3)" by (cases "commit h1 hm m'")
  from "3.prems"(1) w c have h2: "h2 = h3" by simp
  from "3.prems"(3) have na: "a \<notin> set (pref_addrs r)" "a \<notin> set (live_addrs hm)"
    by (simp_all add: live_addrs_Cons)
  from write_param_frame [OF w "3.prems"(2) na(1)] write_param_length [OF w] "3.prems"(2)
  have "h1 ! a = h ! a" "a < length h1" by simp_all
  with "3.IH" [OF w [symmetric] c _ na(2)] h2 show ?case
    by simp
qed

lemma commit_addrs:
  "commit h hm m' = (h2, hm2) \<Longrightarrow>
   set (live_addrs hm2) \<subseteq> set (live_addrs hm) \<union> {length h ..< length h2}"
proof (induction h hm m' arbitrary: h2 hm2 rule: commit.induct)
  case (1 h hm)
  then show ?case by (auto simp: live_addrs_Nil)
next
  case (2 h n p m')
  obtain h1 r where f: "fresh_param h p = (h1, r)" by (cases "fresh_param h p")
  obtain h3 hm3 where c: "commit h1 [] m' = (h3, hm3)" by (cases "commit h1 [] m'")
  from "2.prems"(1) f c have e: "h2 = h3" "hm2 = (n, r) # hm3" by simp_all
  from "2.IH" [OF f [symmetric] c] fresh_param_facts(3,4) [OF f] commit_length [OF c]
  show ?case
    by (auto simp: e live_addrs_Cons live_addrs_Nil)
next
  case (3 h n0 r hm n p m')
  obtain h1 r' where w: "write_param h r p = (h1, r')" by (cases "write_param h r p")
  obtain h3 hm3 where c: "commit h1 hm m' = (h3, hm3)" by (cases "commit h1 hm m'")
  from "3.prems"(1) w c have e: "h2 = h3" "hm2 = (n, r') # hm3" by simp_all
  from "3.IH" [OF w [symmetric] c] write_param_addrs [OF w] write_param_length [OF w]
    commit_length [OF c]
  show ?case
    by (auto simp: e live_addrs_Cons)
qed

lemma commit_view:
  "commit h hm m' = (h2, hm2) \<Longrightarrow> live_ok h hm \<Longrightarrow>
   model_view h2 hm2 = m' \<and> live_ok h2 hm2"
proof (induction h hm m' arbitrary: h2 hm2 rule: commit.induct)
  case (1 h hm)
  then show ?case by (simp add: model_view_def live_ok_def live_addrs_Nil)
next
  case (2 h n p m')
  obtain h1 r where f: "fresh_param h p = (h1, r)" by (cases "fresh_param h p")
  obtain h3 hm3 where c: "commit h1 [] m' = (h3, hm3)" by (cases "commit h1 [] m'")
  from "2.prems"(1) f c have e: "h2 = h3" "hm2 = (n, r) # hm3" by simp_all
  have ok1: "live_ok h1 []" by (simp add: live_ok_def live_addrs_Nil)
  from "2.IH" [OF f [symmetric] c ok1] have ih: "model_view h3 hm3 = m'" "live_ok h3 hm3"
    by simp_all
  note ff = fresh_param_facts [OF f]
  have in1: "\<forall>a \<in> set (pref_addrs r). a < length h1" using ff(3) by auto
  have keep: "\<forall>a \<in> set (pref_addrs r). h3 ! a = h1 ! a"
    using commit_frame [OF c] in1 by (simp add: live_addrs_Nil)
  have "param_view h3 r = param_view h1 r"
    using keep by (rule param_view_cong)
  with ff(1) have pv: "param_view h3 r = p" by simp
  from commit_addrs [OF c] have "set (live_addrs hm3) \<subseteq> {length h1 ..< length h3}"
    by (simp add: live_addrs_Nil)
  with in1 have disj: "set (pref_addrs r) \<inter> set (live_addrs hm3) = {}"
    by fastforce
  from in1 commit_length [OF c] have in3: "\<forall>a \<in> set (pref_addrs r). a < length h3"
    by fastforce
  from ih pv disj in3 ff(2) show ?case
    by (auto simp: e model_view_def live_ok_def live_addrs_Cons)
next
  case (3 h n0 r hm n p m')
  obtain h1 r' where w: "write_param h r p = (h1, r')" by (cases "write_param h r p")
  obtain h3 hm3 where c: "commit h1 hm m' = (h3, hm3)" by (cases "commit h1 hm m'")
  from "3.prems"(1) w c have e: "h2 = h3" "hm2 = (n, r') # hm3" by simp_all
  from "3.prems"(2) have d: "distinct (pref_addrs r)" "distinct (live_addrs hm)"
    "set (pref_addrs r) \<inter> set (live_addrs hm) = {}"
    "\<forall>a \<in> set (pref_addrs r). a < length h" "\<forall>a \<in> set (live_addrs hm). a < length h"
    by (auto simp: live_ok_def live_addrs_Cons)
  from write_param_view [OF w d(1,4)] have wv: "param_view h1 r' = p"
    "distinct (pref_addrs r')" "\<forall>a \<in> set (pref_addrs r'). a < length h1"
    by simp_all
  from d(2,5) write_param_length [OF w] have ok1: "live_ok h1 hm"
    by (fastforce simp: live_ok_def)
  from "3.IH" [OF w [symmetric] c ok1] have ih: "model_view h3 hm3 = m'" "live_ok h3 hm3"
    by simp_all
  from write_param_addrs [OF w] d(3,5) have n1: "set (pref_addrs r') \<inter> set (live_addrs hm) = {}"
    by fastforce
  have keep: "\<forall>a \<in> set (pref_addrs r'). h3 ! a = h1 ! a"
    using commit_frame [OF c] wv(3) n1 by auto
  have "param_view h3 r' = param_view h1 r'"
    using keep by (rule param_view_cong)
  with wv(1) have pv: "param_view h3 r' = p" by simp
  from commit_addrs [OF c] wv(3) n1
  have disj: "set (pref_addrs r') \<inter> set (live_addrs hm3) = {}"
    by fastforce
  from wv(3) commit_length [OF c] have in3: "\<forall>a \<in> set (pref_addrs r'). a < length h3"
    by fastforce
  from ih pv disj in3 wv(2) show ?case
    by (auto simp: e model_view_def live_ok_def live_addrs_Cons)
qed

subsection \<open>afterInference on the store\<close>

lemma dict_view_cong:
  assumes "\<forall>a \<in> ran d. h' ! a = h ! a"
  shows "dict_view h' d = dict_view h d"
proof
  fix name
  show "dict_view h' d name = dict_view h d name"
  proof (cases "d name")
    case None
    then show ?thesis by (simp add: dict_view_def)
  next
    case (Some a)
    then have "a \<in> ran d" by (auto simp: ran_def)
    with assms Some show ?thesis by (simp add: dict_view_def)
  qed
qed

text \<open>An update of the live model in place keeps the store separated, leaves every
  stored cell as it was, and makes the live model the one written.\<close>

lemma commit_model_separated:
  assumes "separated st"
  shows "separated (commit_model st m')"
    and "live_view (commit_model st m') = m'"
    and "stored_fishers (commit_model st m') = stored_fishers st"
    and "stored_params (commit_model st m') = stored_params st"
    and "\<forall>a \<in> stored_addrs st. cells (commit_model st m') ! a = cells st ! a"
    and "history_view (commit_model st m') = history_view st"
    and "length (cells st) \<le> length (cells (commit_model st m'))"
proof -
  obtain h' hm' where c: "commit (cells st) (live st) m' = (h', hm')"
    by (cases "commit (cells st) (live st) m'")
  then have st': "commit_model st m' = st\<lparr>cells := h', live := hm'\<rparr>"
    by (simp add: commit_model_def)
  from assms have ok: "live_ok (cells st) (live st)"
    and sep: "\<forall>a \<in> stored_addrs st. a < length (cells st) \<and> a \<notin> set (live_addrs (live st))"
    by (simp_all add: separated_def)
  from commit_view [OF c ok] have v: "model_view h' hm' = m'" "live_ok h' hm'"
    by simp_all
  have keep: "\<forall>a \<in> stored_addrs st. h' ! a = cells st ! a"
    using commit_frame [OF c] sep by blast
  have len: "length (cells st) \<le> length h'"
    by (rule commit_length [OF c])
  have sa: "stored_addrs (st\<lparr>cells := h', live := hm'\<rparr>) = stored_addrs st"
    by (simp add: stored_addrs_def)
  have new: "\<forall>a \<in> stored_addrs st. a < length h' \<and> a \<notin> set (live_addrs hm')"
  proof
    fix a assume a: "a \<in> stored_addrs st"
    with sep have "a < length (cells st)" "a \<notin> set (live_addrs (live st))" by simp_all
    with commit_addrs [OF c] len show "a < length h' \<and> a \<notin> set (live_addrs hm')"
      by fastforce
  qed
  show "separated (commit_model st m')"
    using v(2) new by (simp add: st' separated_def sa)
  show "live_view (commit_model st m') = m'"
    using v(1) by (simp add: st' live_view_def)
  show "stored_fishers (commit_model st m') = stored_fishers st"
    "stored_params (commit_model st m') = stored_params st"
    by (simp_all add: st')
  show k: "\<forall>a \<in> stored_addrs st. cells (commit_model st m') ! a = cells st ! a"
    using keep by (simp add: st')
  have "dict_view h' d = dict_view (cells st) d"
    if "d \<in> set (stored_fishers st) \<union> set (stored_params st)" for d
  proof (rule dict_view_cong)
    from that have "ran d \<subseteq> stored_addrs st"
      by (auto simp: stored_addrs_def)
    with keep show "\<forall>a \<in> ran d. h' ! a = cells st ! a" by blast
  qed
  then show "history_view (commit_model st m') = history_view st"
    by (simp add: st' history_view_def)
  show "length (cells st) \<le> length (cells (commit_model st m'))"
    using len by (simp add: st')
qed

text \<open>The method on the store computes what the method on values computes.\<close>

lemma afterInference_store_refines:
  assumes "separated st"
  shows "fst (GCTaskILEWCTrainer_afterInference_store self res b st) =
           map_sum id fst
             (fst (GCTaskILEWCTrainer_afterInference self res (live_view st) b (history_view st)))"
  and "\<forall>out. fst (GCTaskILEWCTrainer_afterInference_store self res b st) = Inr out \<longrightarrow>
         fst (GCTaskILEWCTrainer_afterInference self res (live_view st) b (history_view st))
           = Inr (out, live_view (snd (GCTaskILEWCTrainer_afterInference_store self res b st)))"
  using commit_model_separated(1,2) [OF assms]
    commit_model_separated(2) [OF commit_model_separated(1) [OF assms]]
  by (auto simp: GCTaskILEWCTrainer_afterInference_store_def GCTaskILEWCTrainer_afterInference_def
      split: sum.splits)

lemma afterInference_store_frame:
  assumes "separated st"
  shows "separated (snd (GCTaskILEWCTrainer_afterInference_store self res b st)) \<and>
         stored_fishers (snd (GCTaskILEWCTrainer_afterInference_store self res b st))
           = stored_fishers st \<and>
         stored_params (snd (GCTaskILEWCTrainer_afterInference_store self res b st))
           = stored_params st \<and>
         (\<forall>a \<in> stored_addrs st.
            cells (snd (GCTaskILEWCTrainer_afterInference_store self res b st)) ! a
              = cells st ! a) \<and>
         history_view (snd (GCTaskILEWCTrainer_afterInference_store self res b st))
           = history_view st"
proof -
  have one: "separated (commit_model st m1) \<and>
         stored_fishers (commit_model st m1) = stored_fishers st \<and>
         stored_params (commit_model st m1) = stored_params st \<and>
         (\<forall>a \<in> stored_addrs st. cells (commit_model st m1) ! a = cells st ! a) \<and>
         history_view (commit_model st m1) = history_view st" for m1
    using commit_model_separated [OF assms, of m1] by simp
  have two: "separated (commit_model (commit_model st m1) m2) \<and>
         stored_fishers (commit_model (commit_model st m1) m2) = stored_fishers st \<and>
         stored_params (commit_model (commit_model st m1) m2) = stored_params st \<and>
         (\<forall>a \<in> stored_addrs st. cells (commit_model (commit_model st m1) m2) ! a = cells st ! a) \<and>
         history_view (commit_model (commit_model st m1) m2) = history_view st" for m1 m2
  proof -
    from one [of m1] have s1: "separated (commit_model st m1)"
      and sa: "stored_addrs (commit_model st m1) = stored_addrs st"
      by (simp_all add: stored_addrs_def)
    from commit_model_separated [OF s1, of m2] one [of m1] sa show ?thesis
      by simp
  qed
  from assms one two show ?thesis
    by (simp add: GCTaskILEWCTrainer_afterInference_store_def split: sum.splits)
qed

subsection \<open>The visit of the parameters on the store\<close>

lemma extends_refl: "extends h h K"
  by (simp add: extends_def)

lemma extends_trans: "extends h h1 K \<Longrightarrow> extends h1 h2 K \<Longrightarrow> extends h h2 K"
  by (simp add: extends_def)

lemma dict_view_upd: "dict_view h (d(name \<mapsto> a)) = (dict_view h d)(name \<mapsto> h ! a)"
  by (rule ext) (simp add: dict_view_def)

lemma dict_view_append:
  "\<forall>a \<in> ran d. a < length h \<Longrightarrow> dict_view (h @ xs) d = dict_view h d"
  by (rule dict_view_cong) (simp add: nth_append)

lemma dict_view_write_other:
  "fa \<notin> ran d \<Longrightarrow> dict_view (h[fa := t]) d = dict_view h d"
  by (rule dict_view_cong) (metis nth_list_update_neq)

lemma dict_view_write:
  assumes "fs name = Some fa" and "fa < length h" and "inj_dict fs"
  shows "dict_view (h[fa := t]) fs = (dict_view h fs)(name \<mapsto> t)"
proof
  fix n
  show "dict_view (h[fa := t]) fs n = ((dict_view h fs)(name \<mapsto> t)) n"
  proof (cases "n = name")
    case True
    with assms(1,2) show ?thesis by (simp add: dict_view_def)
  next
    case False
    show ?thesis
    proof (cases "fs n")
      case None
      with False show ?thesis by (simp add: dict_view_def)
    next
      case (Some a)
      with assms(1,3) False have "a \<noteq> fa" by (auto simp: inj_dict_def)
      with Some False show ?thesis by (simp add: dict_view_def)
    qed
  qed
qed

lemma model_view_cong:
  "\<forall>a \<in> set (live_addrs hm). h' ! a = h ! a \<Longrightarrow> model_view h' hm = model_view h hm"
proof (induction hm)
  case Nil
  then show ?case by (simp add: model_view_def)
next
  case (Cons nr hm)
  obtain n r where nr: "nr = (n, r)" by (cases nr)
  from Cons.prems nr have "\<forall>a \<in> set (pref_addrs r). h' ! a = h ! a"
    "\<forall>a \<in> set (live_addrs hm). h' ! a = h ! a"
    by (simp_all add: live_addrs_Cons)
  with Cons.IH param_view_cong [of r h' h] show ?case
    by (simp add: nr model_view_def)
qed

lemma model_view_Cons:
  "model_view h ((n, r) # hm) = (n, param_view h r) # model_view h hm"
  by (simp add: model_view_def)

lemma ranI2: "d n = Some a \<Longrightarrow> a \<in> ran d"
  by (auto simp: ran_def)

lemma ran_upd_subset: "ran (d(n \<mapsto> a)) \<subseteq> insert a (ran d)"
  by (auto simp: ran_def split: if_splits)

lemma live_addrs_mono: "set rest \<subseteq> set hm \<Longrightarrow> set (live_addrs rest) \<subseteq> set (live_addrs hm)"
  by (auto simp: live_addrs_def)

lemma alloc_step:
  assumes "locals_ok h hm H ps fs"
  shows "locals_ok (h @ [t]) hm H (ps(name \<mapsto> length h)) fs"
    and "extends h (h @ [t]) (H \<union> set (live_addrs hm))"
    and "dict_view (h @ [t]) (ps(name \<mapsto> length h)) = (dict_view h ps)(name \<mapsto> t)"
    and "dict_view (h @ [t]) fs = dict_view h fs"
    and "set rest \<subseteq> set hm \<Longrightarrow> model_view (h @ [t]) rest = model_view h rest"
proof -
  from assms have ok: "live_ok h hm"
    and val: "\<forall>a \<in> H \<union> ran ps \<union> ran fs. a < length h \<and> a \<notin> set (live_addrs hm)"
    and dis: "ran fs \<inter> (H \<union> ran ps) = {}" and inj: "inj_dict fs"
    by (simp_all add: locals_ok_def)
  let ?ps = "ps(name \<mapsto> length h)"
  have rps: "ran ?ps \<subseteq> insert (length h) (ran ps)"
    by (rule ran_upd_subset)
  from ok have lv: "\<forall>a \<in> set (live_addrs hm). a < length h"
    by (simp add: live_ok_def)
  have "live_ok (h @ [t]) hm"
    using ok by (auto simp: live_ok_def)
  moreover have "\<forall>a \<in> H \<union> ran ?ps \<union> ran fs. a < length (h @ [t]) \<and> a \<notin> set (live_addrs hm)"
  proof
    fix a assume "a \<in> H \<union> ran ?ps \<union> ran fs"
    with rps consider "a \<in> H \<union> ran ps \<union> ran fs" | "a = length h"
      by blast
    then show "a < length (h @ [t]) \<and> a \<notin> set (live_addrs hm)"
    proof cases
      case 1
      with val have "a < length h \<and> a \<notin> set (live_addrs hm)" by blast
      then show ?thesis by simp
    next
      case 2
      with lv have "a \<notin> set (live_addrs hm)" by auto
      with 2 show ?thesis by simp
    qed
  qed
  moreover have "ran fs \<inter> (H \<union> ran ?ps) = {}"
  proof -
    from val have "length h \<notin> ran fs" by auto
    with dis rps show ?thesis by blast
  qed
  ultimately show "locals_ok (h @ [t]) hm H ?ps fs"
    using inj by (simp add: locals_ok_def)
  show "extends h (h @ [t]) (H \<union> set (live_addrs hm))"
    using val lv by (auto simp: extends_def nth_append)
  have "dict_view (h @ [t]) ps = dict_view h ps"
    using val by (intro dict_view_append) simp
  then show "dict_view (h @ [t]) ?ps = (dict_view h ps)(name \<mapsto> t)"
    by (simp add: dict_view_upd)
  show "dict_view (h @ [t]) fs = dict_view h fs"
    using val by (intro dict_view_append) simp
  show "model_view (h @ [t]) rest = model_view h rest" if "set rest \<subseteq> set hm"
  proof (rule model_view_cong)
    from live_addrs_mono [OF that] lv
    show "\<forall>a \<in> set (live_addrs rest). (h @ [t]) ! a = h ! a"
      by (auto simp: nth_append)
  qed
qed

lemma write_step:
  assumes "locals_ok h hm H ps fs" and "fs name = Some fa"
  shows "locals_ok (h[fa := t]) hm H ps fs"
    and "extends h (h[fa := t]) (H \<union> set (live_addrs hm))"
    and "dict_view (h[fa := t]) ps = dict_view h ps"
    and "dict_view (h[fa := t]) fs = (dict_view h fs)(name \<mapsto> t)"
    and "set rest \<subseteq> set hm \<Longrightarrow> model_view (h[fa := t]) rest = model_view h rest"
proof -
  from assms(1) have ok: "live_ok h hm"
    and val: "\<forall>a \<in> H \<union> ran ps \<union> ran fs. a < length h \<and> a \<notin> set (live_addrs hm)"
    and dis: "ran fs \<inter> (H \<union> ran ps) = {}" and inj: "inj_dict fs"
    by (simp_all add: locals_ok_def)
  from assms(2) have fa: "fa \<in> ran fs" by (rule ranI2)
  with val dis have fa': "fa < length h" "fa \<notin> set (live_addrs hm)" "fa \<notin> H" "fa \<notin> ran ps"
    by auto
  show "locals_ok (h[fa := t]) hm H ps fs"
    using assms(1) by (simp add: locals_ok_def live_ok_def)
  have "h[fa := t] ! a = h ! a" if "a \<in> H \<union> set (live_addrs hm)" for a
  proof -
    from that fa'(2,3) have "a \<noteq> fa" by auto
    then show ?thesis by simp
  qed
  then show "extends h (h[fa := t]) (H \<union> set (live_addrs hm))"
    by (simp add: extends_def)
  show "dict_view (h[fa := t]) ps = dict_view h ps"
    by (rule dict_view_write_other [OF fa'(4)])
  show "dict_view (h[fa := t]) fs = (dict_view h fs)(name \<mapsto> t)"
    by (rule dict_view_write [OF assms(2) fa'(1) inj])
  show "model_view (h[fa := t]) rest = model_view h rest" if "set rest \<subseteq> set hm"
  proof (rule model_view_cong)
    show "\<forall>a \<in> set (live_addrs rest). h[fa := t] ! a = h ! a"
    proof
      fix a assume "a \<in> set (live_addrs rest)"
      with live_addrs_mono [OF that] fa'(2) have "a \<noteq> fa" by auto
      then show "h[fa := t] ! a = h ! a" by simp
    qed
  qed
qed

lemma accumulate_agrees_extend:
  "extends h h1 (H \<union> set (live_addrs hm)) \<Longrightarrow> accumulate_agrees h1 h' hm H fs v s \<Longrightarrow>
   accumulate_agrees h h' hm H fs v s"
  by (auto simp: accumulate_agrees_def intro: extends_trans)

lemma accumulate_store_refines:
  assumes "locals_ok h hm H ps fs" and "set rest \<subseteq> set hm"
  shows "\<exists>h'. accumulate_agrees h h' hm H fs
           (GCTaskILEWCTrainer_accumulate (model_view h rest) n (dict_view h ps) (dict_view h fs))
           (GCTaskILEWCTrainer_accumulate_store rest n h ps fs)"
  using assms
proof (induction rest arbitrary: h ps)
  case Nil
  then show ?case
    by (auto simp: accumulate_agrees_def model_view_def extends_refl)
next
  case (Cons nr rest)
  obtain name r where nr: "nr = (name, r)" by (cases nr)
  from Cons.prems(2) nr have sub: "set rest \<subseteq> set hm" and mem: "(name, r) \<in> set hm"
    by simp_all
  let ?t = "h ! data_at r"
  let ?h1 = "h @ [?t]"
  let ?ps1 = "ps(name \<mapsto> length h)"
  note a1 = alloc_step(1) [OF Cons.prems(1), where t = ?t and name = name]
  note a2 = alloc_step(2) [OF Cons.prems(1), where t = ?t]
  note a3 = alloc_step(3) [OF Cons.prems(1), where t = ?t and name = name]
  note a4 = alloc_step(4) [OF Cons.prems(1), where t = ?t]
  note a5 = alloc_step(5) [OF Cons.prems(1) sub, where t = ?t]
  from Cons.prems(1) have lv: "\<forall>a \<in> set (live_addrs hm). a < length h"
    and val: "\<forall>a \<in> ran fs. a < length h"
    by (simp_all add: locals_ok_def live_ok_def)
  from mem have pa: "set (pref_addrs r) \<subseteq> set (live_addrs hm)"
    by (auto simp: live_addrs_def)
  have mv: "model_view h ((name, r) # rest) = (name, param_view h r) # model_view ?h1 rest"
    by (simp add: model_view_Cons a5)
  have dps: "(dict_view h ps)(name \<mapsto> data (param_view h r)) = dict_view ?h1 ?ps1"
    by (simp add: a3 param_view_def)
  show ?case
  proof (cases "grad_at r")
    case None
    from Cons.IH [OF a1 sub] obtain h' where
      "accumulate_agrees ?h1 h' hm H fs
         (GCTaskILEWCTrainer_accumulate (model_view ?h1 rest) n (dict_view ?h1 ?ps1)
            (dict_view ?h1 fs))
         (GCTaskILEWCTrainer_accumulate_store rest n ?h1 ?ps1 fs)"
      by blast
    from accumulate_agrees_extend [OF a2 this]
    have "accumulate_agrees h h' hm H fs
         (GCTaskILEWCTrainer_accumulate (model_view h (nr # rest)) n (dict_view h ps)
            (dict_view h fs))
         (GCTaskILEWCTrainer_accumulate_store (nr # rest) n h ps fs)"
      using None by (simp add: mv a3 a4 nr param_view_def)
    then show ?thesis by blast
  next
    case (Some ga)
    then have "ga \<in> set (pref_addrs r)" by (simp add: pref_addrs_def)
    with pa lv have ga: "?h1 ! ga = h ! ga" by (auto simp: nth_append)
    have gv: "grad (param_view h r) = Some (h ! ga)"
      using Some by (simp add: param_view_def)
    show ?thesis
    proof (cases "fs name")
      case None
      have "accumulate_agrees h ?h1 hm H fs
         (GCTaskILEWCTrainer_accumulate (model_view h (nr # rest)) n (dict_view h ps)
            (dict_view h fs))
         (GCTaskILEWCTrainer_accumulate_store (nr # rest) n h ps fs)"
        using None Some a2
        by (simp add: accumulate_agrees_def mv gv nr dict_view_def)
      then show ?thesis by blast
    next
      case (Some fa)
      then have "fa \<in> ran fs" by (rule ranI2)
      with val have fa: "?h1 ! fa = h ! fa" by (auto simp: nth_append)
      have fv: "dict_view h fs name = Some (h ! fa)"
        using Some by (simp add: dict_view_def)
      let ?sum = "tensor_add (h ! fa) (tensor_mul_int (tensor_pow2 (h ! ga)) n)"
      show ?thesis
      proof (cases ?sum)
        case (Inl e)
        have "accumulate_agrees h ?h1 hm H fs
         (GCTaskILEWCTrainer_accumulate (model_view h (nr # rest)) n (dict_view h ps)
            (dict_view h fs))
         (GCTaskILEWCTrainer_accumulate_store (nr # rest) n h ps fs)"
          using Inl Some \<open>grad_at r = Some ga\<close> a2 fa ga
          by (simp add: accumulate_agrees_def mv gv fv nr)
        then show ?thesis by blast
      next
        case (Inr f')
        let ?h2 = "?h1[fa := f']"
        note w = write_step [OF a1 Some, where t = f']
        from Cons.IH [OF w(1) sub] obtain h' where
          "accumulate_agrees ?h2 h' hm H fs
             (GCTaskILEWCTrainer_accumulate (model_view ?h2 rest) n (dict_view ?h2 ?ps1)
                (dict_view ?h2 fs))
             (GCTaskILEWCTrainer_accumulate_store rest n ?h2 ?ps1 fs)"
          by blast
        from accumulate_agrees_extend [OF extends_trans [OF a2 w(2)] this]
        have "accumulate_agrees h h' hm H fs
         (GCTaskILEWCTrainer_accumulate (model_view h (nr # rest)) n (dict_view h ps)
            (dict_view h fs))
         (GCTaskILEWCTrainer_accumulate_store (nr # rest) n h ps fs)"
          using Inr Some \<open>grad_at r = Some ga\<close> fa ga
          by (simp add: mv gv fv nr a3 w(3,4) w(5) [OF sub] a4 param_view_def)
        then show ?thesis by blast
      qed
    qed
  qed
qed

subsection \<open>Normalising and the dictionaries of zeros on the store\<close>

lemma normalize_store_refines:
  assumes "locals_ok h hm H ps fs" and "set rest \<subseteq> set hm"
  shows "\<exists>h'. normalize_agrees h h' hm H ps fs
           (GCTaskILEWCTrainer_normalize (model_view h rest) N (dict_view h fs))
           (GCTaskILEWCTrainer_normalize_store rest N h fs)"
  using assms
proof (induction rest arbitrary: h)
  case Nil
  then have "normalize_agrees h h hm H ps fs
           (GCTaskILEWCTrainer_normalize (model_view h []) N (dict_view h fs))
           (GCTaskILEWCTrainer_normalize_store [] N h fs)"
    by (simp add: normalize_agrees_def model_view_def extends_refl)
  then show ?case by blast
next
  case (Cons nr rest)
  obtain name r where nr: "nr = (name, r)" by (cases nr)
  from Cons.prems(2) nr have sub: "set rest \<subseteq> set hm"
    by simp
  show ?case
  proof (cases "fs name")
    case None
    with Cons.prems(1) have "normalize_agrees h h hm H ps fs
           (GCTaskILEWCTrainer_normalize (model_view h (nr # rest)) N (dict_view h fs))
           (GCTaskILEWCTrainer_normalize_store (nr # rest) N h fs)"
      by (simp add: normalize_agrees_def nr model_view_Cons dict_view_def extends_refl)
    then show ?thesis by blast
  next
    case (Some fa)
    let ?t = "tensor_div_int (h ! fa) N"
    let ?h1 = "h[fa := ?t]"
    note w = write_step [OF Cons.prems(1) Some, where t = ?t]
    from Cons.IH [OF w(1) sub] obtain h' where
      ih: "normalize_agrees ?h1 h' hm H ps fs
           (GCTaskILEWCTrainer_normalize (model_view ?h1 rest) N (dict_view ?h1 fs))
           (GCTaskILEWCTrainer_normalize_store rest N ?h1 fs)"
      by blast
    have "dict_view h fs name = Some (h ! fa)"
      using Some by (simp add: dict_view_def)
    with ih w(2,3) Some have "normalize_agrees h h' hm H ps fs
           (GCTaskILEWCTrainer_normalize (model_view h (nr # rest)) N (dict_view h fs))
           (GCTaskILEWCTrainer_normalize_store (nr # rest) N h fs)"
      by (auto simp: normalize_agrees_def nr model_view_Cons w(4) w(5) [OF sub]
          intro: extends_trans)
    then show ?thesis by blast
  qed
qed

lemma inj_dict_fresh:
  assumes "inj_dict d" and "\<forall>a \<in> ran d. a < n"
  shows "inj_dict (d(name \<mapsto> n))"
  unfolding inj_dict_def
proof (intro allI impI)
  fix n1 n2 a
  assume 1: "(d(name \<mapsto> n)) n1 = Some a" and 2: "(d(name \<mapsto> n)) n2 = Some a"
  show "n1 = n2"
  proof (cases "a = n")
    case True
    have "n1 = name"
    proof (rule ccontr)
      assume "n1 \<noteq> name"
      with 1 True have "n \<in> ran d" by (auto intro: ranI2)
      with assms(2) show False by auto
    qed
    moreover have "n2 = name"
    proof (rule ccontr)
      assume "n2 \<noteq> name"
      with 2 True have "n \<in> ran d" by (auto intro: ranI2)
      with assms(2) show False by auto
    qed
    ultimately show ?thesis by simp
  next
    case False
    with 1 2 have "d n1 = Some a" "d n2 = Some a"
      by (auto split: if_splits)
    with assms(1) show ?thesis by (auto simp: inj_dict_def)
  qed
qed

lemma zeros_dict_store_refines:
  assumes "\<forall>a \<in> set (live_addrs rest). a < length h" and "\<forall>a \<in> ran d. a < length h"
  shows "zeros_agrees h d rest (zeros_dict_store rest h d)"
  using assms
proof (induction rest arbitrary: h d)
  case Nil
  then show ?case
    by (simp add: zeros_agrees_def model_view_def)
next
  case (Cons nr rest)
  obtain name r where nr: "nr = (name, r)" by (cases nr)
  let ?t = "zeros_like (h ! data_at r)"
  let ?h1 = "h @ [?t]"
  let ?d1 = "d(name \<mapsto> length h)"
  from Cons.prems(1) nr have lv: "\<forall>a \<in> set (live_addrs rest). a < length h"
    by (simp add: live_addrs_Cons)
  then have lv1: "\<forall>a \<in> set (live_addrs rest). a < length ?h1"
    by auto
  have rd1: "ran ?d1 \<subseteq> insert (length h) (ran d)"
    by (rule ran_upd_subset)
  with Cons.prems(2) have v1: "\<forall>a \<in> ran ?d1. a < length ?h1"
    by fastforce
  have "zeros_agrees ?h1 ?d1 rest (zeros_dict_store rest ?h1 ?d1)"
    by (rule Cons.IH [OF lv1 v1])
  then obtain h' d' where s: "zeros_dict_store rest ?h1 ?d1 = (h', d')"
    and len: "length ?h1 \<le> length h'" and keep: "\<forall>a < length ?h1. h' ! a = ?h1 ! a"
    and view: "dict_view h' d' = zeros_dict (model_view ?h1 rest) (dict_view ?h1 ?d1)"
    and ran: "ran d' \<subseteq> ran ?d1 \<union> {length ?h1 ..< length h'}"
    and inj: "inj_dict ?d1 \<longrightarrow> inj_dict d'"
    by (cases "zeros_dict_store rest ?h1 ?d1") (simp add: zeros_agrees_def)
  have mv: "model_view ?h1 rest = model_view h rest"
    by (rule model_view_cong) (use lv in \<open>auto simp: nth_append\<close>)
  have dv: "dict_view ?h1 ?d1 = (dict_view h d)(name \<mapsto> ?t)"
    using Cons.prems(2) by (simp add: dict_view_upd dict_view_append)
  have 1: "length h \<le> length h'" using len by simp
  have 2: "\<forall>a < length h. h' ! a = h ! a"
    using keep by (auto simp: nth_append)
  have 3: "dict_view h' d' = zeros_dict (model_view h (nr # rest)) (dict_view h d)"
    by (simp add: view mv dv nr model_view_Cons param_view_def)
  have 4: "ran d' \<subseteq> ran d \<union> {length h ..< length h'}"
    using ran rd1 len by fastforce
  have 5: "inj_dict d \<longrightarrow> inj_dict d'"
    using inj inj_dict_fresh [OF _ Cons.prems(2)] by blast
  from 1 2 3 4 5 s show ?case
    by (simp add: zeros_agrees_def nr)
qed

subsection \<open>The pass over the batches on the store\<close>

lemma history_view_extends:
  assumes "stored_fishers st' = stored_fishers st" and "stored_params st' = stored_params st"
    and "extends (cells st) (cells st') (stored_addrs st)"
  shows "history_view st' = history_view st"
proof -
  have "dict_view (cells st') d = dict_view (cells st) d"
    if "d \<in> set (stored_fishers st) \<union> set (stored_params st)" for d
  proof (rule dict_view_cong)
    from that have "ran d \<subseteq> stored_addrs st"
      by (auto simp: stored_addrs_def)
    with assms(3) show "\<forall>a \<in> ran d. cells st' ! a = cells st ! a"
      by (auto simp: extends_def)
  qed
  with assms(1,2) show ?thesis
    by (simp add: history_view_def)
qed

lemma stored_addrs_cong:
  "stored_fishers st' = stored_fishers st \<Longrightarrow> stored_params st' = stored_params st \<Longrightarrow>
   stored_addrs st' = stored_addrs st"
  by (simp add: stored_addrs_def)

lemma locals_ok_separated:
  "locals_ok (cells st) (live st) (stored_addrs st) ps fs \<Longrightarrow> separated st"
  by (simp add: locals_ok_def separated_def)

lemma commit_model_locals:
  assumes "locals_ok (cells st) (live st) H ps fs"
  shows "locals_ok (cells (commit_model st m')) (live (commit_model st m')) H ps fs"
    and "live_view (commit_model st m') = m'"
    and "extends (cells st) (cells (commit_model st m')) (H \<union> ran ps \<union> ran fs)"
    and "stored_fishers (commit_model st m') = stored_fishers st"
    and "stored_params (commit_model st m') = stored_params st"
proof -
  obtain h' hm' where c: "commit (cells st) (live st) m' = (h', hm')"
    by (cases "commit (cells st) (live st) m'")
  then have st': "commit_model st m' = st\<lparr>cells := h', live := hm'\<rparr>"
    by (simp add: commit_model_def)
  from assms have ok: "live_ok (cells st) (live st)"
    and val: "\<forall>a \<in> H \<union> ran ps \<union> ran fs.
                a < length (cells st) \<and> a \<notin> set (live_addrs (live st))"
    and dis: "ran fs \<inter> (H \<union> ran ps) = {}" and inj: "inj_dict fs"
    by (simp_all add: locals_ok_def)
  from commit_view [OF c ok] have v: "model_view h' hm' = m'" "live_ok h' hm'"
    by simp_all
  have len: "length (cells st) \<le> length h'"
    by (rule commit_length [OF c])
  have keep: "\<forall>a \<in> H \<union> ran ps \<union> ran fs. h' ! a = cells st ! a"
    using commit_frame [OF c] val by blast
  have new: "\<forall>a \<in> H \<union> ran ps \<union> ran fs. a < length h' \<and> a \<notin> set (live_addrs hm')"
  proof
    fix a assume "a \<in> H \<union> ran ps \<union> ran fs"
    with val have "a < length (cells st)" "a \<notin> set (live_addrs (live st))" by blast+
    with commit_addrs [OF c] len show "a < length h' \<and> a \<notin> set (live_addrs hm')"
      by fastforce
  qed
  show "locals_ok (cells (commit_model st m')) (live (commit_model st m')) H ps fs"
    using v(2) new dis inj by (simp add: st' locals_ok_def)
  show "live_view (commit_model st m') = m'"
    using v(1) by (simp add: st' live_view_def)
  show "extends (cells st) (cells (commit_model st m')) (H \<union> ran ps \<union> ran fs)"
    using len keep by (simp add: st' extends_def)
  show "stored_fishers (commit_model st m') = stored_fishers st"
    "stored_params (commit_model st m') = stored_params st"
    by (simp_all add: st')
qed

lemma extends_subset: "extends h h' K \<Longrightarrow> K' \<subseteq> K \<Longrightarrow> extends h h' K'"
  by (auto simp: extends_def)

lemma dict_view_extends: "extends h h' K \<Longrightarrow> ran d \<subseteq> K \<Longrightarrow> dict_view h' d = dict_view h d"
  by (rule dict_view_cong) (auto simp: extends_def)

lemma loop_agrees_step:
  assumes "stored_fishers st1 = stored_fishers st" and "stored_params st1 = stored_params st"
    and "extends (cells st) (cells st1) (stored_addrs st)"
    and "loop_agrees st1 st' fs v s"
  shows "loop_agrees st st' fs v s"
  using assms stored_addrs_cong [OF assms(1,2)]
  by (auto simp: loop_agrees_def intro: extends_trans split: sum.splits)

lemma separated_cells:
  assumes "separated st" and "length (cells st) \<le> length h'"
  shows "separated (st\<lparr>cells := h'\<rparr>)"
proof -
  have sa: "stored_addrs (st\<lparr>cells := h'\<rparr>) = stored_addrs st"
    by (simp add: stored_addrs_def)
  from assms have "live_ok h' (live st)"
    by (fastforce simp: separated_def live_ok_def)
  moreover from assms have "\<forall>a \<in> stored_addrs st. a < length h' \<and> a \<notin> set (live_addrs (live st))"
    by (fastforce simp: separated_def)
  ultimately show ?thesis
    by (simp add: separated_def sa)
qed

lemma fisher_loop_store_refines:
  assumes "locals_ok (cells st) (live st) (stored_addrs st) ps fs"
  shows "\<exists>st'. loop_agrees st st' fs
           (GCTaskILEWCTrainer_fisher_loop self (history_view st) bs (live_view st) N
              (dict_view (cells st) ps) (dict_view (cells st) fs))
           (GCTaskILEWCTrainer_fisher_loop_store self bs st N ps fs)"
  using assms
proof (induction bs arbitrary: st N ps)
  case Nil
  have "loop_agrees st st fs
           (GCTaskILEWCTrainer_fisher_loop self (history_view st) [] (live_view st) N
              (dict_view (cells st) ps) (dict_view (cells st) fs))
           (GCTaskILEWCTrainer_fisher_loop_store self [] st N ps fs)"
    using Nil locals_ok_separated [OF Nil]
    by (simp add: loop_agrees_def extends_refl)
  then show ?case by blast
next
  case (Cons b bs)
  let ?H = "stored_addrs st"
  let ?ts = "history_view st"
  let ?st1 = "commit_model st (zero_grad self (live_view st))"
  note c1 = commit_model_locals [OF Cons.prems, where m' = "zero_grad self (live_view st)"]
  have e1: "extends (cells st) (cells ?st1) ?H"
    by (rule extends_subset [OF c1(3)]) blast
  have hv1: "history_view ?st1 = ?ts"
    by (rule history_view_extends [OF c1(4,5) e1])
  have sa1: "stored_addrs ?st1 = ?H"
    by (rule stored_addrs_cong [OF c1(4,5)])
  have sep1: "separated ?st1"
    using c1(1) by (simp add: locals_ok_def separated_def sa1)
  have bb: "GCTaskILEWCTrainer_batch_backward self ?ts (live_view st) b =
      (case inference self (live_view ?st1) b ?ts of
         Inl e \<Rightarrow> Inl e
       | Inr res \<Rightarrow> backward self (loss res) (live_view ?st1) b ?ts)"
    by (simp add: GCTaskILEWCTrainer_batch_backward_def c1(2) split: sum.splits)
  show ?case
  proof (cases "inference self (live_view ?st1) b ?ts")
    case (Inl e)
    have "loop_agrees st ?st1 fs
           (GCTaskILEWCTrainer_fisher_loop self ?ts (b # bs) (live_view st) N
              (dict_view (cells st) ps) (dict_view (cells st) fs))
           (GCTaskILEWCTrainer_fisher_loop_store self (b # bs) st N ps fs)"
      using Inl c1(4,5) e1 sep1
      by (simp add: loop_agrees_def bb hv1 Let_def)
    then show ?thesis by blast
  next
    case (Inr res)
    show ?thesis
    proof (cases "backward self (loss res) (live_view ?st1) b ?ts")
      case (Inl e)
      have "loop_agrees st ?st1 fs
           (GCTaskILEWCTrainer_fisher_loop self ?ts (b # bs) (live_view st) N
              (dict_view (cells st) ps) (dict_view (cells st) fs))
           (GCTaskILEWCTrainer_fisher_loop_store self (b # bs) st N ps fs)"
        using Inl \<open>inference self (live_view ?st1) b ?ts = Inr res\<close> c1(4,5) e1 sep1
        by (simp add: loop_agrees_def bb hv1 Let_def)
      then show ?thesis by blast
    next
      case (Inr m')
      let ?st2 = "commit_model ?st1 m'"
      let ?n = "length (labels b)"
      note c2 = commit_model_locals [OF c1(1), where m' = m']
      have e2: "extends (cells st) (cells ?st2) (?H \<union> ran ps \<union> ran fs)"
        by (rule extends_trans [OF c1(3) c2(3)])
      have dps: "dict_view (cells ?st2) ps = dict_view (cells st) ps"
        by (rule dict_view_extends [OF e2]) blast
      have dfs: "dict_view (cells ?st2) fs = dict_view (cells st) fs"
        by (rule dict_view_extends [OF e2]) blast
      have sf2: "stored_fishers ?st2 = stored_fishers st" "stored_params ?st2 = stored_params st"
        using c1(4,5) c2(4,5) by simp_all
      have bbv: "GCTaskILEWCTrainer_batch_backward self ?ts (live_view st) b = Inr m'"
        using Inr \<open>inference self (live_view ?st1) b ?ts = Inr res\<close> by (simp add: bb)
      have mv2: "model_view (cells ?st2) (live ?st2) = m'"
        using c2(2) unfolding live_view_def [of ?st2] .
      from accumulate_store_refines [OF c2(1) subset_refl, of ?n] obtain h' where
        "accumulate_agrees (cells ?st2) h' (live ?st2) ?H fs
           (GCTaskILEWCTrainer_accumulate (model_view (cells ?st2) (live ?st2)) ?n
              (dict_view (cells ?st2) ps) (dict_view (cells ?st2) fs))
           (GCTaskILEWCTrainer_accumulate_store (live ?st2) ?n (cells ?st2) ps fs)"
        by blast
      then have
        acc: "accumulate_agrees (cells ?st2) h' (live ?st2) ?H fs
           (GCTaskILEWCTrainer_accumulate m' ?n (dict_view (cells st) ps)
              (dict_view (cells st) fs))
           (GCTaskILEWCTrainer_accumulate_store (live ?st2) ?n (cells ?st2) ps fs)"
        unfolding mv2 dps dfs .
      let ?st3 = "?st2\<lparr>cells := h'\<rparr>"
      from acc have e3: "extends (cells ?st2) h' (?H \<union> set (live_addrs (live ?st2)))"
        by (simp add: accumulate_agrees_def)
      have e03: "extends (cells st) (cells ?st3) ?H"
      proof -
        have "extends (cells st) (cells ?st2) ?H"
          by (rule extends_subset [OF e2]) blast
        moreover have "extends (cells ?st2) h' ?H"
          by (rule extends_subset [OF e3]) blast
        ultimately have "extends (cells st) h' ?H"
          by (rule extends_trans)
        then show ?thesis by simp
      qed
      have sep2: "separated ?st2"
        using c2(1) by (simp add: locals_ok_def separated_def stored_addrs_cong [OF sf2])
      have sep3: "separated ?st3"
        using separated_cells [OF sep2] e3 by (simp add: extends_def)
      have sf3: "stored_fishers ?st3 = stored_fishers st" "stored_params ?st3 = stored_params st"
        using sf2 by simp_all
      show ?thesis
      proof (cases "GCTaskILEWCTrainer_accumulate m' ?n (dict_view (cells st) ps)
              (dict_view (cells st) fs)")
        case (Inl e)
        with acc have s: "GCTaskILEWCTrainer_accumulate_store (live ?st2) ?n (cells ?st2) ps fs
            = Inl (e, h')"
          by (simp add: accumulate_agrees_def)
        have "loop_agrees st ?st3 fs
           (GCTaskILEWCTrainer_fisher_loop self ?ts (b # bs) (live_view st) N
              (dict_view (cells st) ps) (dict_view (cells st) fs))
           (GCTaskILEWCTrainer_fisher_loop_store self (b # bs) st N ps fs)"
          using Inl s Inr \<open>inference self (live_view ?st1) b ?ts = Inr res\<close> sf3 e03 sep3
          by (simp add: loop_agrees_def bbv hv1 Let_def)
        then show ?thesis by blast
      next
        case (Inr pf)
        obtain psv fsv where pf: "pf = (psv, fsv)" by (cases pf)
        with Inr acc obtain ps' where
          s: "GCTaskILEWCTrainer_accumulate_store (live ?st2) ?n (cells ?st2) ps fs
                = Inr (h', ps')"
          and v: "dict_view h' ps' = psv" "dict_view h' fs = fsv"
          and l: "locals_ok h' (live ?st2) ?H ps' fs"
          by (auto simp: accumulate_agrees_def split: sum.splits)
        have sa3: "stored_addrs ?st3 = ?H"
          by (rule stored_addrs_cong [OF sf3])
        have l3: "locals_ok (cells ?st3) (live ?st3) (stored_addrs ?st3) ps' fs"
          using l by (simp add: sa3)
        have lv3: "live_view ?st3 = m'"
        proof -
          have "model_view h' (live ?st2) = model_view (cells ?st2) (live ?st2)"
            by (rule model_view_cong) (use e3 in \<open>auto simp: extends_def\<close>)
          with mv2 show ?thesis
            unfolding live_view_def [of ?st3] by simp
        qed
        have hv3: "history_view ?st3 = ?ts"
          by (rule history_view_extends [OF sf3 e03])
        from Cons.IH [OF l3, of "N + ?n"] obtain st' where
          "loop_agrees ?st3 st' fs
             (GCTaskILEWCTrainer_fisher_loop self (history_view ?st3) bs (live_view ?st3)
                (N + ?n) (dict_view (cells ?st3) ps') (dict_view (cells ?st3) fs))
             (GCTaskILEWCTrainer_fisher_loop_store self bs ?st3 (N + ?n) ps' fs)"
          by blast
        from loop_agrees_step [OF sf3 e03 this]
        have "loop_agrees st st' fs
           (GCTaskILEWCTrainer_fisher_loop self ?ts (b # bs) (live_view st) N
              (dict_view (cells st) ps) (dict_view (cells st) fs))
           (GCTaskILEWCTrainer_fisher_loop_store self (b # bs) st N ps fs)"
          using Inr pf s \<open>backward self (loss res) (live_view ?st1) b ?ts = Inr m'\<close>
            \<open>inference self (live_view ?st1) b ?ts = Inr res\<close>
          by (simp add: bbv hv1 hv3 lv3 v Let_def)
        then show ?thesis by blast
      qed
    qed
  qed
qed

subsection \<open>processAfterTraining on the store\<close>

lemma dict_view_empty: "dict_view h Map.empty = Map.empty"
  by (rule ext) (simp add: dict_view_def)

lemma inj_dict_empty: "inj_dict Map.empty"
  by (simp add: inj_dict_def)

text \<open>The two dictionaries of zeros are fresh cells: the store is ready for the pass.\<close>

lemma zeros_ready:
  assumes "separated st0"
    and "zeros_dict_store (live st0) (cells st0) Map.empty = (h1, ps0)"
    and "zeros_dict_store (live st0) h1 Map.empty = (h2, fs0)"
  shows "locals_ok h2 (live st0) (stored_addrs st0) ps0 fs0"
    and "extends (cells st0) h2 (stored_addrs st0 \<union> set (live_addrs (live st0)))"
    and "dict_view h2 ps0 = zeros_dict (live_view st0) Map.empty"
    and "dict_view h2 fs0 = zeros_dict (live_view st0) Map.empty"
proof -
  let ?h0 = "cells st0" and ?hm = "live st0" and ?H = "stored_addrs st0"
  from assms(1) have ok: "live_ok ?h0 ?hm"
    and sep: "\<forall>a \<in> ?H. a < length ?h0 \<and> a \<notin> set (live_addrs ?hm)"
    by (simp_all add: separated_def)
  from ok have lv: "\<forall>a \<in> set (live_addrs ?hm). a < length ?h0"
    by (simp add: live_ok_def)
  from zeros_dict_store_refines [OF lv, of Map.empty] assms(2)
  have z1: "length ?h0 \<le> length h1" "\<forall>a < length ?h0. h1 ! a = ?h0 ! a"
    "dict_view h1 ps0 = zeros_dict (model_view ?h0 ?hm) Map.empty"
    "ran ps0 \<subseteq> {length ?h0 ..< length h1}"
    by (simp_all add: zeros_agrees_def dict_view_empty)
  from lv z1(1) have lv1: "\<forall>a \<in> set (live_addrs ?hm). a < length h1"
    by fastforce
  from zeros_dict_store_refines [OF lv1, of Map.empty] assms(3)
  have z2: "length h1 \<le> length h2" "\<forall>a < length h1. h2 ! a = h1 ! a"
    "dict_view h2 fs0 = zeros_dict (model_view h1 ?hm) Map.empty"
    "ran fs0 \<subseteq> {length h1 ..< length h2}" "inj_dict fs0"
    by (simp_all add: zeros_agrees_def dict_view_empty inj_dict_empty)
  have mv1: "model_view h1 ?hm = model_view ?h0 ?hm"
    by (rule model_view_cong) (use lv z1(2) in auto)
  have keep: "\<forall>a < length ?h0. h2 ! a = ?h0 ! a"
    using z1(1,2) z2(2) by auto
  have "live_ok h2 ?hm"
    using ok z1(1) z2(1) by (fastforce simp: live_ok_def)
  moreover have "\<forall>a \<in> ?H \<union> ran ps0 \<union> ran fs0. a < length h2 \<and> a \<notin> set (live_addrs ?hm)"
  proof
    fix a assume "a \<in> ?H \<union> ran ps0 \<union> ran fs0"
    then consider "a \<in> ?H" | "a \<in> ran ps0" | "a \<in> ran fs0" by blast
    then show "a < length h2 \<and> a \<notin> set (live_addrs ?hm)"
    proof cases
      case 1
      with sep z1(1) z2(1) show ?thesis by fastforce
    next
      case 2
      with z1(4) have "length ?h0 \<le> a" "a < length h1" by auto
      with lv z2(1) show ?thesis by fastforce
    next
      case 3
      with z2(4) have "length h1 \<le> a" "a < length h2" by auto
      with lv1 show ?thesis by fastforce
    qed
  qed
  moreover have "ran fs0 \<inter> (?H \<union> ran ps0) = {}"
  proof -
    have "a \<notin> ran fs0" if "a \<in> ?H \<union> ran ps0" for a
    proof -
      from that sep z1(1,4) have "a < length h1" by fastforce
      with z2(4) show ?thesis by auto
    qed
    then show ?thesis by blast
  qed
  ultimately show "locals_ok h2 ?hm ?H ps0 fs0"
    using z2(5) by (simp add: locals_ok_def)
  show "extends ?h0 h2 (?H \<union> set (live_addrs ?hm))"
    using sep lv keep z1(1) z2(1) by (auto simp: extends_def)
  have "dict_view h2 ps0 = dict_view h1 ps0"
    by (rule dict_view_cong) (use z1(4) z2(2) in auto)
  with z1(3) show "dict_view h2 ps0 = zeros_dict (live_view st0) Map.empty"
    by (simp add: live_view_def)
  from z2(3) mv1 show "dict_view h2 fs0 = zeros_dict (live_view st0) Map.empty"
    by (simp add: live_view_def)
qed

lemma history_view_cells:
  assumes "extends (cells st) h' (stored_addrs st)"
  shows "history_view (st\<lparr>cells := h'\<rparr>) = history_view st"
  by (rule history_view_extends) (use assms in simp_all)

lemma processAfterTraining_store_refines:
  assumes "separated st"
  shows "estimate_agrees st
           (GCTaskILEWCTrainer_processAfterTraining self tid ds (live_view st) (history_view st))
           (GCTaskILEWCTrainer_processAfterTraining_store self tid ds st)"
proof (cases "super_processAfterTraining self tid ds (live_view st) (history_view st)")
  case (Inl e)
  with assms show ?thesis
    by (simp add: estimate_agrees_def GCTaskILEWCTrainer_processAfterTraining_def
        GCTaskILEWCTrainer_processAfterTraining_store_def extends_refl)
next
  case (Inr m0)
  let ?H = "stored_addrs st"
  define st0 where "st0 = commit_model st m0"
  note c = commit_model_separated [OF assms, of m0, folded st0_def]
  have H0: "stored_addrs st0 = ?H"
    by (rule stored_addrs_cong) (rule c(3), rule c(4))
  have e0: "extends (cells st) (cells st0) ?H"
    using c(5,7) by (simp add: extends_def)
  obtain h1 ps0 where z1: "zeros_dict_store (live st0) (cells st0) Map.empty = (h1, ps0)"
    by (cases "zeros_dict_store (live st0) (cells st0) Map.empty")
  obtain h2 fs0 where z2: "zeros_dict_store (live st0) h1 Map.empty = (h2, fs0)"
    by (cases "zeros_dict_store (live st0) h1 Map.empty")
  note zr = zeros_ready [OF c(1) z1 z2, unfolded H0 c(2)]
  define st2 where "st2 = st0\<lparr>cells := h2\<rparr>"
  have sf2: "stored_fishers st2 = stored_fishers st" "stored_params st2 = stored_params st"
    by (simp_all add: st2_def c(3,4))
  have H2: "stored_addrs st2 = ?H"
    by (rule stored_addrs_cong) (rule sf2(1), rule sf2(2))
  have e02: "extends (cells st0) (cells st2) ?H"
    using extends_subset [OF zr(2), of ?H] by (simp add: st2_def)
  have e2: "extends (cells st) (cells st2) ?H"
    by (rule extends_trans [OF e0 e02])
  have hv2: "history_view st2 = history_view st"
    by (rule history_view_extends [OF sf2 e2])
  have lv2: "live_view st2 = m0"
  proof -
    have "model_view h2 (live st0) = model_view (cells st0) (live st0)"
      by (rule model_view_cong) (use zr(2) in \<open>auto simp: extends_def\<close>)
    with c(2) show ?thesis
      by (simp add: st2_def live_view_def)
  qed
  have lok2: "locals_ok (cells st2) (live st2) (stored_addrs st2) ps0 fs0"
    using zr(1) by (simp add: H2) (simp add: st2_def)
  have sep2: "separated st2"
    by (rule locals_ok_separated [OF lok2])
  have dv2: "dict_view (cells st2) ps0 = zeros_dict m0 Map.empty"
    "dict_view (cells st2) fs0 = zeros_dict m0 Map.empty"
    using zr(3,4) by (simp_all add: st2_def)
  have store_eq: "GCTaskILEWCTrainer_processAfterTraining_store self tid ds st =
      (case prepareLoader self ds (history_view st) of
         Inl e \<Rightarrow> (Inl e, st2)
       | Inr train_loader \<Rightarrow>
           (case GCTaskILEWCTrainer_fisher_loop_store self train_loader st2 0 ps0 fs0 of
              Inl (e, st3) \<Rightarrow> (Inl e, st3)
            | Inr (st3, total_num_items, ps) \<Rightarrow>
                (case GCTaskILEWCTrainer_normalize_store (live st3) total_num_items
                        (cells st3) fs0 of
                   Inl (e, h4) \<Rightarrow> (Inl e, st3\<lparr>cells := h4\<rparr>)
                 | Inr h4 \<Rightarrow>
                     (Inr (),
                      st3\<lparr>cells := h4,
                          stored_fishers := stored_fishers st3 @ [fs0],
                          stored_params := stored_params st3 @ [ps]\<rparr>))))"
    unfolding st2_def using Inr z1 z2 hv2 [unfolded st2_def]
    by (simp add: GCTaskILEWCTrainer_processAfterTraining_store_def Let_def
        st0_def [symmetric])
  show ?thesis
  proof (cases "prepareLoader self ds (history_view st)")
    case (Inl e)
    with Inr store_eq sep2 hv2 e2 sf2 show ?thesis
      by (simp add: estimate_agrees_def GCTaskILEWCTrainer_processAfterTraining_def)
  next
    case loader: (Inr train_loader)
    let ?v = "GCTaskILEWCTrainer_fisher_loop self (history_view st) train_loader m0 0
                (zeros_dict m0 Map.empty) (zeros_dict m0 Map.empty)"
    let ?s = "GCTaskILEWCTrainer_fisher_loop_store self train_loader st2 0 ps0 fs0"
    from fisher_loop_store_refines [OF lok2, of self train_loader 0]
    obtain st3 where la: "loop_agrees st2 st3 fs0 ?v ?s"
      unfolding hv2 lv2 dv2 by blast
    then have sf3: "stored_fishers st3 = stored_fishers st" "stored_params st3 = stored_params st"
      and e23: "extends (cells st2) (cells st3) ?H" and sep3: "separated st3"
      by (simp_all add: loop_agrees_def sf2 H2)
    have H3: "stored_addrs st3 = ?H"
      by (rule stored_addrs_cong) (rule sf3(1), rule sf3(2))
    have e3: "extends (cells st) (cells st3) ?H"
      by (rule extends_trans [OF e2 e23])
    have hv3: "history_view st3 = history_view st"
      by (rule history_view_extends [OF sf3 e3])
    show ?thesis
    proof (cases ?v)
      case (Inl e)
      with la have "?s = Inl (e, st3)"
        by (simp add: loop_agrees_def)
      with Inl Inr loader store_eq sep3 hv3 e3 sf3 show ?thesis
        by (simp add: estimate_agrees_def GCTaskILEWCTrainer_processAfterTraining_def)
    next
      case vr: (Inr r)
      obtain m N psv fsv where r: "r = (m, N, psv, fsv)"
        by (cases r)
      from la vr r obtain ps where s: "?s = Inr (st3, N, ps)"
        and lv3: "live_view st3 = m"
        and dps: "dict_view (cells st3) ps = psv"
        and dfs: "dict_view (cells st3) fs0 = fsv"
        and lok3: "locals_ok (cells st3) (live st3) ?H ps fs0"
        by (auto simp: loop_agrees_def H2 split: sum.splits)
      let ?nv = "GCTaskILEWCTrainer_normalize m N fsv"
      let ?ns = "GCTaskILEWCTrainer_normalize_store (live st3) N (cells st3) fs0"
      from normalize_store_refines [OF lok3 subset_refl, of N]
      obtain h4 where na: "normalize_agrees (cells st3) h4 (live st3) ?H ps fs0 ?nv ?ns"
        unfolding dfs lv3 [unfolded live_view_def] by blast
      then have e34: "extends (cells st3) h4 (?H \<union> set (live_addrs (live st3)))"
        and dps4: "dict_view h4 ps = psv"
        and lok4: "locals_ok h4 (live st3) ?H ps fs0"
        by (simp_all add: normalize_agrees_def dps)
      have e4: "extends (cells st) h4 ?H"
        by (rule extends_trans [OF e3 extends_subset [OF e34]]) simp
      have len4: "length (cells st3) \<le> length h4"
        using e34 by (simp add: extends_def)
      have sep4: "separated (st3\<lparr>cells := h4\<rparr>)"
        by (rule separated_cells [OF sep3 len4])
      have hv4: "history_view (st3\<lparr>cells := h4\<rparr>) = history_view st"
        by (rule history_view_extends) (simp_all add: sf3 e4)
      show ?thesis
      proof (cases ?nv)
        case (Inl e)
        with na have "?ns = Inl (e, h4)"
          by (simp add: normalize_agrees_def)
        with Inl Inr loader vr r s store_eq sep4 hv4 e4 sf3 show ?thesis
          by (simp add: estimate_agrees_def GCTaskILEWCTrainer_processAfterTraining_def)
      next
        case nr: (Inr fsv')
        with na have ns: "?ns = Inr h4" and dfs4: "dict_view h4 fs0 = fsv'"
          by (simp_all add: normalize_agrees_def)
        let ?st' = "st3\<lparr>cells := h4, stored_fishers := stored_fishers st3 @ [fs0],
                       stored_params := stored_params st3 @ [ps]\<rparr>"
        have H': "stored_addrs ?st' = ?H \<union> ran ps \<union> ran fs0"
          using H3 by (auto simp: stored_addrs_def)
        have sep': "separated ?st'"
          using lok4 by (simp add: separated_def locals_ok_def H')
        have hv': "history_view ?st' =
            (history_view st)\<lparr>fishers := fishers (history_view st) @ [fsv'],
                              params := params (history_view st) @ [psv]\<rparr>"
          using hv4 dfs4 dps4 by (simp add: history_view_def)
        have lv': "live_view ?st' = m"
        proof -
          have "model_view h4 (live st3) = model_view (cells st3) (live st3)"
            by (rule model_view_cong) (use e34 in \<open>auto simp: extends_def\<close>)
          with lv3 show ?thesis
            by (simp add: live_view_def)
        qed
        from Inr loader vr r nr
        have v: "GCTaskILEWCTrainer_processAfterTraining self tid ds (live_view st)
                   (history_view st) =
                 (Inr m, (history_view st)\<lparr>fishers := fishers (history_view st) @ [fsv'],
                              params := params (history_view st) @ [psv]\<rparr>)"
          by (simp add: GCTaskILEWCTrainer_processAfterTraining_def)
        from loader s ns store_eq
        have s': "GCTaskILEWCTrainer_processAfterTraining_store self tid ds st = (Inr (), ?st')"
          by simp
        show ?thesis
          unfolding v s' using sep' hv' lv' e4 sf3
          by (simp add: estimate_agrees_def)
      qed
    qed
  qed
qed

subsection \<open>The store of the penalty scenario\<close>

lemma start_store_separated:
  "separated (start_store m)" "live_view (start_store m) = m"
  "history_view (start_store m) = GCTaskILEWCTrainer_initTrainingStates"
proof -
  let ?e = "\<lparr>cells = [], live = [], stored_fishers = [], stored_params = []\<rparr>"
  have e: "separated ?e"
    by (simp add: separated_def live_ok_def live_addrs_def stored_addrs_def)
  from commit_model_separated(1,2,6) [OF e, of m]
  show "separated (start_store m)" "live_view (start_store m) = m"
    "history_view (start_store m) = GCTaskILEWCTrainer_initTrainingStates"
    by (simp_all add: start_store_def history_view_def GCTaskILEWCTrainer_initTrainingStates_def)
qed

lemma demo_store_views:
  "separated demo_store" "live_view demo_store = demo_w_model"
  "history_view demo_store = demo_history"
proof -
  have "stored_addrs demo_store = {1, 2, 3, 4}"
    by (auto simp: stored_addrs_def demo_store_def)
  then show "separated demo_store"
    by (simp add: separated_def live_ok_def live_addrs_def pref_addrs_def demo_store_def)
  show "live_view demo_store = demo_w_model"
    by (simp add: live_view_def model_view_def param_view_def demo_store_def demo_w_model_def)
  have "dict_view (cells demo_store) [''w'' \<mapsto> a] = [''w'' \<mapsto> cells demo_store ! a]" for a
    by (rule ext) (simp add: dict_view_def)
  then show "history_view demo_store = demo_history"
    by (simp add: history_view_def demo_history_def) (simp add: demo_store_def)
qed

lemma demo_w_estimate:
  "GCTaskILEWCTrainer_processAfterTraining (demo_trainer g) 0 [demo_batch 3, demo_batch 5]
     demo_w_model ts =
   (Inr [(''w'', \<lparr>data = [Fin (3 / 2)], grad = Some [Fin g]\<rparr>)],
    ts\<lparr>fishers := fishers ts @ [[''w'' \<mapsto> [Fin (g * g)]]],
       params := params ts @ [[''w'' \<mapsto> [Fin (3 / 2)]]]\<rparr>)"
  by (simp add: GCTaskILEWCTrainer_processAfterTraining_def demo_batch_backward
      demo_trainer_simps demo_w_model_def demo_batch_def zeros_like_def
      tensor_add_def tensor_mul_int_def tensor_pow2_def tensor_div_int_def fl_of_nat_def)

lemma drift_step:
  "GCTaskILEWCTrainer_afterInference_store drift_trainer demo_results (demo_batch 1) demo_store
   = (Inr \<lparr>out_num_items = 1, out_loss = Fin 76, out_acc = Fin 1\<rparr>,
      demo_store\<lparr>cells := [[Fin (5 / 2)], [Fin (1 / 100)], [Fin 1], [Fin (2 / 100)], [Fin 2],
                           [Fin (3 / 2)]],
                 live := [(''w'', \<lparr>data_at = 0, grad_at = Some 5\<rparr>)]\<rparr>)"
proof -
  have tl: "GCTaskILEWCTrainer_total_loss drift_trainer demo_results demo_w_model demo_history
      = Inr (Fin 76)"
    by (simp add: GCTaskILEWCTrainer_total_loss_def GCTaskILEWCTrainer_loss_reg_def
        drift_trainer_def demo_trainer_def init_lamb_def demo_w_model_def demo_history_def
        demo_results_def tensor_sub_def tensor_mul_def tensor_pow2_def scalar_mul_def
        tensor_sum_def fl_sub_def)
  have bw: "backward drift_trainer l demo_w_model b ts =
      Inr [(''w'', \<lparr>data = [Fin (5 / 2)], grad = Some [Fin (3 / 2)]\<rparr>)]" for l b ts
    by (simp add: drift_trainer_def demo_w_model_def)
  let ?st1 = "demo_store\<lparr>cells := [[Fin (5 / 2)], [Fin (1 / 100)], [Fin 1], [Fin (2 / 100)],
                  [Fin 2], [Fin (3 / 2)]],
                 live := [(''w'', \<lparr>data_at = 0, grad_at = Some 5\<rparr>)]\<rparr>"
  have c1: "commit_model demo_store [(''w'', \<lparr>data = [Fin (5 / 2)], grad = Some [Fin (3 / 2)]\<rparr>)]
      = ?st1"
    by (simp add: commit_model_def write_param_def demo_store_def)
  have lv1: "live_view ?st1 = [(''w'', \<lparr>data = [Fin (5 / 2)], grad = Some [Fin (3 / 2)]\<rparr>)]"
    by (simp add: live_view_def model_view_def param_view_def demo_store_def)
  have c2: "commit_model ?st1 [(''w'', \<lparr>data = [Fin (5 / 2)], grad = Some [Fin (3 / 2)]\<rparr>)]
      = ?st1"
    by (simp add: commit_model_def write_param_def demo_store_def)
  have os: "optimizer_step drift_trainer m = Inr m" 
    "predictionFormat drift_trainer r = Inr (map (\<lambda>row. 0) (preds r))"
    "eval_fn drift_trainer f l = Inr (Fin 1)" for m r f l
    by (simp_all add: drift_trainer_def demo_trainer_def)
  show ?thesis
    unfolding GCTaskILEWCTrainer_afterInference_store_def demo_store_views tl bw c1 lv1 c2 os
      sum.case
    by (simp add: demo_results_def)
qed

section \<open>The claims\<close>

text \<open>
  C1. The penalty \<open>afterInference\<close> adds to the task loss is the sum, over the tasks of
  the history and the parameters of the live model, of
  \<open>lamb * fisher[i][name] * (current[name] - snapshot[i][name]) ** 2\<close> summed over the
  elements (for a finite \<open>lamb\<close>, a finite model and a history that fits it), in
  \<open>GCTaskILEWCTrainer\<close> and in \<open>GCClassILEWCTrainer\<close>. In the scenario with two completed
  tasks (\<open>lamb\<close> 10000, Fisher values 0.01 and 0.02, snapshots 1.0 and 2.0, current value
  1.5) the penalty from \<open>w\<close> is 25 + 50 = 75.
\<close>

theorem penalty_is_weighted_drift_sum:
  assumes "lamb self = Fin lam" and "history_fits m ts" and "finite_model m"
  shows "GCTaskILEWCTrainer_loss_reg self m ts = Inr (Fin (ewc_penalty lam m ts)) \<and>
         GCTaskILEWCTrainer_total_loss self res m ts =
           Inr (fl_add (loss res) (Fin (ewc_penalty lam m ts))) \<and>
         GCClassILEWCTrainer_loss_reg self m ts = Inr (Fin (ewc_penalty lam m ts)) \<and>
         GCClassILEWCTrainer_total_loss self res m ts =
           Inr (fl_add (loss res) (Fin (ewc_penalty lam m ts)))"
proof -
  from penalty_tasks_finite [OF assms(3) history_fits_zip [OF assms(2)], of lam 0]
  have "GCTaskILEWCTrainer_loss_reg self m ts = Inr (Fin (ewc_penalty lam m ts))"
    by (simp add: GCTaskILEWCTrainer_loss_reg_def assms(1) ewc_penalty_def)
  then show ?thesis
    by (simp add: GCTaskILEWCTrainer_total_loss_def loss_reg_class_task total_loss_class_task)
qed


theorem penalty_is_weighted_drift_sum_witness:
  "lamb (demo_trainer 1) = Fin 10000 \<and>
   history_fits demo_w_model demo_history \<and>
   finite_model demo_w_model \<and>
   GCTaskILEWCTrainer_loss_reg (demo_trainer 1) demo_w_model demo_history = Inr (Fin 75) \<and>
   GCClassILEWCTrainer_loss_reg (demo_trainer 1) demo_w_model demo_history = Inr (Fin 75) \<and>
   ewc_penalty 10000 demo_w_model demo_history = 25 + 50"
proof -
  have h: "lamb (demo_trainer 1) = Fin 10000" "history_fits demo_w_model demo_history"
    "finite_model demo_w_model"
    by (simp_all add: demo_trainer_simps history_fits_def entry_fits_iff demo_history_def
        demo_w_model_def finite_model_def finite_tensor_def)
  have v: "ewc_penalty 10000 demo_w_model demo_history = 25 + 50"
    by (simp add: ewc_penalty_def ewc_elements_def demo_history_def demo_w_model_def
        power2_eq_square)
  from penalty_is_weighted_drift_sum [OF h, of demo_results] h v show ?thesis
    by simp
qed

text \<open>
  C2 (as amended). If the Fisher estimation sees zero labeled items, \<open>processAfterTraining\<close>
  does not fail on that account: the division by the zero item count is not guarded. When
  the base hook, the loader and the pass over the batches raise nothing (with an empty
  loader the pass cannot raise) and the parameter names are unchanged, the call returns
  normally and appends, with the snapshot, a Fisher estimate in which every element of
  every parameter's tensor is NaN (in \<open>GCTaskILEWCTrainer\<close> and in
  \<open>GCClassILEWCTrainer\<close>).
\<close>

theorem zero_items_division_unguarded:
  assumes "super_processAfterTraining self tid ds m ts = Inr m0"
    and "prepareLoader self ds ts = Inr bs"
    and "GCTaskILEWCTrainer_fisher_loop self ts bs m0 0 (zeros_dict m0 Map.empty)
           (zeros_dict m0 Map.empty) = Inr (m', N, ps, fs)"
    and "(\<Sum>b\<leftarrow>bs. length (labels b)) = 0"
    and "map fst m' = map fst m0"
  shows "fst (GCTaskILEWCTrainer_processAfterTraining self tid ds m ts) = Inr m' \<and>
         butlast (fishers (snd (GCTaskILEWCTrainer_processAfterTraining self tid ds m ts)))
           = fishers ts \<and>
         params (snd (GCTaskILEWCTrainer_processAfterTraining self tid ds m ts))
           = params ts @ [ps] \<and>
         (\<forall>name \<in> fst ` set m'.
            \<exists>f. last (fishers (snd (GCTaskILEWCTrainer_processAfterTraining self tid ds m ts)))
                   name = Some f \<and> (\<forall>x \<in> set f. x = NaN)) \<and>
         GCClassILEWCTrainer_processAfterTraining self tid ds m ts =
           GCTaskILEWCTrainer_processAfterTraining self tid ds m ts"
proof -
  let ?Z = "zeros_dict m0 Map.empty"
  from assms(4) have empty: "\<forall>b \<in> set bs. labels b = []"
    by (induction bs) auto
  from zeros_dict_invariant [OF zero_or_nan_dict_empty, of m0]
  have z: "zero_or_nan_dict ?Z" "dom ?Z = fst ` set m0"
    by simp_all
  from fisher_loop_no_items [OF assms(3) empty z(1)] z(2)
  have inv: "zero_or_nan_dict fs" and dom: "dom fs = fst ` set m0" and N: "N = 0"
    by simp_all
  from assms(5) have "fst ` set m' = fst ` set m0"
    by (metis list.set_map)
  with dom have sub: "fst ` set m' \<subseteq> dom fs" by simp
  from normalize_no_items [OF inv sub] obtain fs' where
    norm: "GCTaskILEWCTrainer_normalize m' 0 fs = Inr fs'"
    and look: "\<forall>name. fs' name =
              (if name \<in> fst ` set m'
               then map_option (\<lambda>f. replicate (length f) NaN) (fs name) else fs name)"
    by blast
  have nan: "\<exists>f. fs' name = Some f \<and> (\<forall>x \<in> set f. x = NaN)"
    if "name \<in> fst ` set m'" for name
  proof -
    from that sub obtain f where "fs name = Some f" by auto
    with that look have "fs' name = Some (replicate (length f) NaN)" by simp
    then show ?thesis by simp
  qed
  have "GCTaskILEWCTrainer_processAfterTraining self tid ds m ts =
             (Inr m', ts\<lparr>fishers := fishers ts @ [fs'], params := params ts @ [ps]\<rparr>)"
    using assms(1-3) norm N
    by (simp add: GCTaskILEWCTrainer_processAfterTraining_def)
  with nan show ?thesis
    by (simp add: processAfterTraining_class_task)
qed

text \<open>The claim as stated fails: on an empty loader the call returns and appends
  NaN.\<close>

theorem zero_items_division_unguarded_counterexample:
  "GCTaskILEWCTrainer_processAfterTraining (demo_trainer 1) 0 [] demo_w_model
     GCTaskILEWCTrainer_initTrainingStates =
   (Inr demo_w_model, \<lparr>fishers = [[''w'' \<mapsto> [NaN]]], params = [[''w'' \<mapsto> [Fin 0]]]\<rparr>) \<and>
   GCClassILEWCTrainer_processAfterTraining (demo_trainer 1) 0 [] demo_w_model
     GCTaskILEWCTrainer_initTrainingStates =
   (Inr demo_w_model, \<lparr>fishers = [[''w'' \<mapsto> [NaN]]], params = [[''w'' \<mapsto> [Fin 0]]]\<rparr>)"
  by (simp add: processAfterTraining_class_task GCTaskILEWCTrainer_processAfterTraining_def
      demo_trainer_simps demo_w_model_def GCTaskILEWCTrainer_initTrainingStates_def
      zeros_like_def tensor_div_int_def fl_of_nat_def)

theorem zero_items_division_unguarded_witness:
  "super_processAfterTraining (demo_trainer 1) 0 [] demo_model demo_history = Inr demo_model \<and>
   prepareLoader (demo_trainer 1) [] demo_history = Inr [] \<and>
   fst (GCTaskILEWCTrainer_processAfterTraining (demo_trainer 1) 0 [] demo_model demo_history)
     = Inr demo_model \<and>
   map (last (fishers (snd (GCTaskILEWCTrainer_processAfterTraining (demo_trainer 1) 0 []
          demo_model demo_history)))) [''w'', ''frozen'']
     = [Some [NaN], Some [NaN, NaN]]"
proof -
  have h: "super_processAfterTraining (demo_trainer 1) 0 [] demo_model demo_history
             = Inr demo_model"
    "prepareLoader (demo_trainer 1) [] demo_history = Inr []"
    "GCTaskILEWCTrainer_fisher_loop (demo_trainer 1) demo_history [] demo_model 0
       (zeros_dict demo_model Map.empty) (zeros_dict demo_model Map.empty)
     = Inr (demo_model, 0, zeros_dict demo_model Map.empty, zeros_dict demo_model Map.empty)"
    "(\<Sum>b\<leftarrow>([] :: unit batch list). length (labels b)) = 0"
    "map fst demo_model = map fst demo_model"
    by (simp_all add: demo_trainer_simps)
  note r = zero_items_division_unguarded [OF h]
  have "map (last (fishers (snd (GCTaskILEWCTrainer_processAfterTraining (demo_trainer 1) 0 []
          demo_model demo_history)))) [''w'', ''frozen'']
     = [Some [NaN], Some [NaN, NaN]]"
    by (simp add: GCTaskILEWCTrainer_processAfterTraining_def
      demo_trainer_simps demo_model_def zeros_like_def tensor_div_int_def fl_of_nat_def)
  with h(1,2) r show ?thesis
    by simp
qed

text \<open>
  C3. For a task dataset with at least one labeled item, the Fisher estimate
  \<open>processAfterTraining\<close> appends is, for each parameter and element, the sum over the
  batches of \<open>gradient ** 2 * batch_item_count\<close> divided by the total item count of all
  batches. This holds, and the call returns, when the base hook, the loader, inference and
  the backward pass raise nothing, the parameter names are distinct and the same after
  every backward pass, and the gradients have the shape of their parameter and are finite.
  With two batches of 3 and 5 items and the constant gradient \<open>g\<close> the Fisher value of
  \<open>w\<close> is \<open>g ** 2\<close>.
\<close>

theorem fisher_is_weighted_mean_of_squared_gradients:
  assumes "super_processAfterTraining self tid ds m ts = Inr m0"
    and "prepareLoader self ds ts = Inr bs"
    and "length (backward_trace self ts bs m0) = length bs"
    and "stable_names m0 (backward_trace self ts bs m0)"
    and "grads_fit m0 (backward_trace self ts bs m0)"
    and "finite_grads name (backward_trace self ts bs m0)"
    and "0 < (\<Sum>b\<leftarrow>bs. length (labels b))"
    and "map_of m0 name = Some p0"
  shows "fst (GCTaskILEWCTrainer_processAfterTraining self tid ds m ts)
           = Inr (fst (last (backward_trace self ts bs m0))) \<and>
         (\<exists>f. last (fishers (snd (GCTaskILEWCTrainer_processAfterTraining self tid ds m ts)))
                name = Some f \<and> length f = length (data p0) \<and>
            (\<forall>j<length f. f ! j =
               Fin (weighted_sq_grads name j (backward_trace self ts bs m0)
                    / of_nat (\<Sum>b\<leftarrow>bs. length (labels b)))))"
proof -
  from estimate_returns_formula [OF assms]
  have r: "fst (GCTaskILEWCTrainer_processAfterTraining self tid ds m ts)
           = Inr (fst (last (backward_trace self ts bs m0)))"
    and t: "total_items (backward_trace self ts bs m0) = (\<Sum>b\<leftarrow>bs. length (labels b))"
    and f: "\<exists>f. last (fishers (snd (GCTaskILEWCTrainer_processAfterTraining self tid ds m ts)))
                name = Some f \<and> length f = length (data p0) \<and>
            (\<forall>j<length f. f ! j = Fin (fisher_spec name j (backward_trace self ts bs m0)))"
    by simp_all
  from f show ?thesis
    unfolding fisher_spec_def t using r by simp
qed

theorem fisher_is_weighted_mean_of_squared_gradients_witness:
  "\<forall>g. stable_names demo_model
         (backward_trace (demo_trainer g) GCTaskILEWCTrainer_initTrainingStates
            [demo_batch 3, demo_batch 5] demo_model) \<and>
       grads_fit demo_model
         (backward_trace (demo_trainer g) GCTaskILEWCTrainer_initTrainingStates
            [demo_batch 3, demo_batch 5] demo_model) \<and>
       finite_grads ''w''
         (backward_trace (demo_trainer g) GCTaskILEWCTrainer_initTrainingStates
            [demo_batch 3, demo_batch 5] demo_model) \<and>
       (\<Sum>b\<leftarrow>[demo_batch 3, demo_batch 5]. length (labels b)) = 3 + 5 \<and>
       (\<exists>f. last (fishers (snd (GCTaskILEWCTrainer_processAfterTraining (demo_trainer g) 0
                 [demo_batch 3, demo_batch 5] demo_model
                 GCTaskILEWCTrainer_initTrainingStates))) ''w'' = Some f \<and>
            length f = 1 \<and> f ! 0 = Fin (g\<^sup>2))"
proof
  fix g
  let ?ts = GCTaskILEWCTrainer_initTrainingStates
  let ?bs = "[demo_batch 3, demo_batch 5]"
  let ?tr = "backward_trace (demo_trainer g) ?ts ?bs demo_model"
  have c: "super_processAfterTraining (demo_trainer g) 0 ?bs demo_model ?ts = Inr demo_model"
    "prepareLoader (demo_trainer g) ?bs ?ts = Inr ?bs"
    by (simp_all add: demo_trainer_simps)
  have h: "length ?tr = length ?bs" "stable_names demo_model ?tr" "grads_fit demo_model ?tr"
    "finite_grads ''w'' ?tr"
    unfolding demo_trace by (simp_all add: demo_trace_hyps demo_grads_fit)
  have n: "(\<Sum>b\<leftarrow>?bs. length (labels b)) = 3 + 5" "0 < (\<Sum>b\<leftarrow>?bs. length (labels b))"
    by (simp_all add: demo_batch_def)
  have w: "map_of demo_model ''w'' = Some \<lparr>data = [Fin (3 / 2)], grad = None\<rparr>"
    by (simp add: demo_model_def)
  from fisher_is_weighted_mean_of_squared_gradients [OF c h n(2) w] obtain f where
    f: "last (fishers (snd (GCTaskILEWCTrainer_processAfterTraining (demo_trainer g) 0
                 ?bs demo_model ?ts))) ''w'' = Some f" "length f = 1"
       "f ! 0 = Fin (weighted_sq_grads ''w'' 0 ?tr / of_nat (\<Sum>b\<leftarrow>?bs. length (labels b)))"
    by auto
  from f(3) have "f ! 0 = Fin (g\<^sup>2)"
    unfolding demo_trace by (simp add: demo_weighted demo_batch_def)
  with f(1,2) h(2-4) n(1)
  show "stable_names demo_model ?tr \<and> grads_fit demo_model ?tr \<and> finite_grads ''w'' ?tr \<and>
       (\<Sum>b\<leftarrow>?bs. length (labels b)) = 3 + 5 \<and>
       (\<exists>f. last (fishers (snd (GCTaskILEWCTrainer_processAfterTraining (demo_trainer g) 0
                 ?bs demo_model ?ts))) ''w'' = Some f \<and>
            length f = 1 \<and> f ! 0 = Fin (g\<^sup>2))"
    by blast
qed

text \<open>
  C4. At every point of a run the two sequences of the training state have the length of
  the number of tasks completed so far: for a state \<open>s\<close> reached from the start of a run
  (where \<open>initTrainingStates\<close> made both empty), both lengths equal the count; and in any
  state \<open>s'\<close> reached later, both sequences are the ones of \<open>s\<close> with one entry appended
  for each task completed in between, so nothing is removed or reordered.
\<close>

theorem history_lengths_count_completed_tasks:
  assumes "run self (run_start m0) s" and "run self s s'"
  shows "length (params (run_training_states s)) = tasks_completed s \<and>
         length (fishers (run_training_states s)) = tasks_completed s \<and>
         (\<exists>ps fs. params (run_training_states s') = params (run_training_states s) @ ps \<and>
                  fishers (run_training_states s') = fishers (run_training_states s) @ fs \<and>
                  length ps = tasks_completed s' - tasks_completed s \<and>
                  length fs = tasks_completed s' - tasks_completed s)"
proof -
  from run_history [OF assms(1)]
  have inv: "length (params (run_training_states s)) = tasks_completed s"
       "length (fishers (run_training_states s)) = tasks_completed s"
    by (auto simp: run_start_def GCTaskILEWCTrainer_initTrainingStates_def)
  from run_history [OF assms(2)] obtain ps fs where
    "params (run_training_states s') = params (run_training_states s) @ ps"
    "fishers (run_training_states s') = fishers (run_training_states s) @ fs"
    "length ps = length fs" "tasks_completed s' = tasks_completed s + length ps"
    by blast
  then have "\<exists>ps fs. params (run_training_states s') = params (run_training_states s) @ ps \<and>
                  fishers (run_training_states s') = fishers (run_training_states s) @ fs \<and>
                  length ps = tasks_completed s' - tasks_completed s \<and>
                  length fs = tasks_completed s' - tasks_completed s"
    by auto
  with inv show ?thesis by simp
qed

theorem history_lengths_count_completed_tasks_witness:
  "run (demo_trainer 2) (run_start demo_model) demo_run_1 \<and>
   run (demo_trainer 2) demo_run_1 demo_run_2 \<and>
   length (params (run_training_states demo_run_1)) = 1 \<and>
   length (fishers (run_training_states demo_run_1)) = 1 \<and>
   tasks_completed demo_run_1 = 1 \<and>
   params (run_training_states demo_run_2) =
     params (run_training_states demo_run_1) @ [demo_snapshot] \<and>
   fishers (run_training_states demo_run_2) =
     fishers (run_training_states demo_run_1) @ [demo_fisher 2] \<and>
   tasks_completed demo_run_2 - tasks_completed demo_run_1 = 1"
  using history_lengths_count_completed_tasks [OF demo_run_1 demo_run_2] demo_run_1 demo_run_2
  by (simp add: demo_run_1_def demo_run_2_def)

text \<open>
  C5. For every model and every \<open>lamb\<close>, when the history is empty the regularization
  term computed in \<open>afterInference\<close> is exactly 0, the total loss is the task loss, and a
  call that returns reports the task loss unchanged.
\<close>

theorem empty_history_penalty_zero: 
  "GCTaskILEWCTrainer_loss_reg self m GCTaskILEWCTrainer_initTrainingStates = Inr (Fin 0) \<and>
   (params ts = [] \<and> fishers ts = [] \<longrightarrow>
      GCTaskILEWCTrainer_loss_reg self m ts = Inr (Fin 0) \<and>
      GCTaskILEWCTrainer_total_loss self res m ts = Inr (loss res) \<and>
      (\<forall>out m' ts'. GCTaskILEWCTrainer_afterInference self res m b ts = (Inr (out, m'), ts')
          \<longrightarrow> out_loss out = loss res))"
  by (auto simp: GCTaskILEWCTrainer_loss_reg_def GCTaskILEWCTrainer_initTrainingStates_def
      GCTaskILEWCTrainer_total_loss_def GCTaskILEWCTrainer_afterInference_def fl_add_zero_right
      split: sum.splits)

theorem empty_history_penalty_zero_witness:
  "params GCTaskILEWCTrainer_initTrainingStates = [] \<and>
   fishers GCTaskILEWCTrainer_initTrainingStates = [] \<and>
   GCTaskILEWCTrainer_afterInference (demo_trainer 1) demo_results demo_model (demo_batch 1)
     GCTaskILEWCTrainer_initTrainingStates
   = (Inr (\<lparr>out_num_items = 1, out_loss = Fin 1, out_acc = Fin 1\<rparr>,
           [(''w'', \<lparr>data = [Fin (3 / 2)], grad = Some [Fin 1]\<rparr>),
            (''frozen'', \<lparr>data = [Fin 7, Fin 8], grad = None\<rparr>)]),
      GCTaskILEWCTrainer_initTrainingStates) \<and>
   out_loss \<lparr>out_num_items = 1, out_loss = Fin 1, out_acc = Fin 1\<rparr> = loss demo_results"
  using empty_history_penalty_zero [of "demo_trainer 1" demo_model GCTaskILEWCTrainer_initTrainingStates demo_results "demo_batch 1"]
  by (simp add: GCTaskILEWCTrainer_initTrainingStates_def GCTaskILEWCTrainer_afterInference_def
      demo_trainer_def demo_results_def demo_batch_def demo_model_def)

text \<open>
  C6. When the loader has at least one batch, the model \<open>processAfterTraining\<close> leaves is
  the one after the backward pass of the last batch, and the snapshot it appends holds,
  for each parameter, the value the parameter has then: not an average over the batches,
  and not the value from before the pass.
\<close>

theorem snapshot_is_value_after_last_batch:
  assumes "GCTaskILEWCTrainer_processAfterTraining self tid ds m ts = (Inr m', ts')"
    and "super_processAfterTraining self tid ds m ts = Inr m0"
    and "prepareLoader self ds ts = Inr bs"
    and "bs \<noteq> []" and "distinct (map fst m')" and "map_of m' name = Some p"
  shows "m' = fst (last (backward_trace self ts bs m0)) \<and>
         last (params ts') name = Some (data p)"
proof -
  from estimate_unfold [OF assms(1-3)] obtain N ps fs fs' where
    loop: "GCTaskILEWCTrainer_fisher_loop self ts bs m0 0 (zeros_dict m0 Map.empty)
             (zeros_dict m0 Map.empty) = Inr (m', N, ps, fs)"
    and ts': "ts' = ts\<lparr>fishers := fishers ts @ [fs'], params := params ts @ [ps]\<rparr>"
    by blast
  from fisher_loop_total [OF loop] assms(4)
  have "backward_trace self ts bs m0 \<noteq> []" "m' = last (m0 # map fst (backward_trace self ts bs m0))"
    by auto
  then have "m' = fst (last (backward_trace self ts bs m0))"
    by (simp add: last_map)
  with fisher_loop_snapshot [OF loop assms(4-6)] show ?thesis
    by (simp add: ts')
qed

theorem snapshot_is_value_after_last_batch_witness:
  "[demo_batch 1, demo_batch 1] \<noteq> [] \<and>
   fst (last (backward_trace drift_trainer GCTaskILEWCTrainer_initTrainingStates
          [demo_batch 1, demo_batch 1] demo_w_model))
     = [(''w'', \<lparr>data = [Fin (7 / 2)], grad = Some [Fin (5 / 2)]\<rparr>)] \<and>
   last (params (snd (GCTaskILEWCTrainer_processAfterTraining drift_trainer 0
      [demo_batch 1, demo_batch 1] demo_w_model GCTaskILEWCTrainer_initTrainingStates)))
      ''w'' = Some [Fin (7 / 2)] \<and>
   map_of demo_w_model ''w'' = Some \<lparr>data = [Fin (3 / 2)], grad = None\<rparr>"
proof -
  let ?m' = "[(''w'', \<lparr>data = [Fin (7 / 2)], grad = Some [Fin (5 / 2)]\<rparr>)]"
  have h: "[demo_batch 1, demo_batch 1] \<noteq> ([] :: unit batch list)"
    "distinct (map fst ?m')"
    "map_of ?m' ''w'' = Some \<lparr>data = [Fin (7 / 2)], grad = Some [Fin (5 / 2)]\<rparr>"
    by simp_all
  have w: "map_of demo_w_model ''w'' = Some \<lparr>data = [Fin (3 / 2)], grad = None\<rparr>"
    by (simp add: demo_w_model_def)
  from snapshot_is_value_after_last_batch [OF drift_estimate _ _ h, of GCTaskILEWCTrainer_initTrainingStates demo_w_model] w
  show ?thesis
    unfolding drift_trace drift_estimate
    by (simp add: drift_trainer_simps)
qed

text \<open>
  C7. \<open>GCDomainILEWCTrainer\<close> and \<open>GCTimeILEWCTrainer\<close> add nothing to
  \<open>GCClassILEWCTrainer\<close>, and the three methods of \<open>GCTaskILEWCTrainer\<close> (and the
  penalty its \<open>afterInference\<close> computes) are the same functions of their inputs as those
  of \<open>GCClassILEWCTrainer\<close>: identical inputs give identical penalties, Fisher
  estimates and snapshots.
\<close>

theorem trainer_variants_agree:
  "GCDomainILEWCTrainer_afterInference self res m b ts =
     GCClassILEWCTrainer_afterInference self res m b ts \<and>
   GCDomainILEWCTrainer_initTrainingStates = GCClassILEWCTrainer_initTrainingStates \<and>
   GCDomainILEWCTrainer_processAfterTraining self tid ds m ts =
     GCClassILEWCTrainer_processAfterTraining self tid ds m ts \<and>
   GCTimeILEWCTrainer_afterInference self res m b ts =
     GCClassILEWCTrainer_afterInference self res m b ts \<and>
   GCTimeILEWCTrainer_initTrainingStates = GCClassILEWCTrainer_initTrainingStates \<and>
   GCTimeILEWCTrainer_processAfterTraining self tid ds m ts =
     GCClassILEWCTrainer_processAfterTraining self tid ds m ts \<and>
   GCTaskILEWCTrainer_loss_reg self m ts = GCClassILEWCTrainer_loss_reg self m ts \<and>
   GCTaskILEWCTrainer_afterInference self res m b ts =
     GCClassILEWCTrainer_afterInference self res m b ts \<and>
   GCTaskILEWCTrainer_initTrainingStates = GCClassILEWCTrainer_initTrainingStates \<and>
   GCTaskILEWCTrainer_processAfterTraining self tid ds m ts =
     GCClassILEWCTrainer_processAfterTraining self tid ds m ts"
  by (simp add: GCDomainILEWCTrainer_afterInference_def
      GCDomainILEWCTrainer_initTrainingStates_def GCDomainILEWCTrainer_processAfterTraining_def
      GCTimeILEWCTrainer_afterInference_def GCTimeILEWCTrainer_initTrainingStates_def
      GCTimeILEWCTrainer_processAfterTraining_def loss_reg_class_task
      afterInference_class_task processAfterTraining_class_task
      GCTaskILEWCTrainer_initTrainingStates_def GCClassILEWCTrainer_initTrainingStates_def)

text \<open>
  C8 (as amended). For a task dataset with at least one labeled item, when the base hook,
  the loader, inference and the backward passes raise nothing, the parameter names are
  distinct and unchanged by the backward passes and every gradient has the shape of its
  parameter: for a parameter whose gradients, where present, are finite,
  \<open>processAfterTraining\<close> returns and every element of the Fisher estimate it appends for
  that parameter is a finite number that is not negative; and if the gradient of the
  parameter is absent after the backward pass of every batch, its Fisher value is zero in
  every element.
\<close>

theorem fisher_nonnegative_zero_without_gradient:
  assumes "super_processAfterTraining self tid ds m ts = Inr m0"
    and "prepareLoader self ds ts = Inr bs"
    and "length (backward_trace self ts bs m0) = length bs"
    and "stable_names m0 (backward_trace self ts bs m0)"
    and "grads_fit m0 (backward_trace self ts bs m0)"
    and "finite_grads name (backward_trace self ts bs m0)"
    and "0 < (\<Sum>b\<leftarrow>bs. length (labels b))"
    and "map_of m0 name = Some p0"
  shows "\<exists>f. last (fishers (snd (GCTaskILEWCTrainer_processAfterTraining self tid ds m ts)))
               name = Some f \<and>
           (\<forall>x \<in> set f. \<exists>q. x = Fin q \<and> 0 \<le> q) \<and>
           ((\<forall>(mi, n) \<in> set (backward_trace self ts bs m0). grad_of mi name = None)
              \<longrightarrow> f = zeros_like (data p0))"
proof -
  let ?tr = "backward_trace self ts bs m0"
  from estimate_returns_formula [OF assms] obtain f where
    f: "last (fishers (snd (GCTaskILEWCTrainer_processAfterTraining self tid ds m ts))) name
          = Some f" "length f = length (data p0)"
    "\<forall>j<length f. f ! j = Fin (fisher_spec name j ?tr)"
    by blast
  have nonneg: "0 \<le> fisher_spec name j ?tr" for j
    by (simp add: fisher_spec_def weighted_sq_grads_nonneg)
  have "\<exists>q. x = Fin q \<and> 0 \<le> q" if "x \<in> set f" for x
  proof -
    from that obtain j where "j < length f" "x = f ! j"
      by (auto simp: in_set_conv_nth)
    with f(3) nonneg show ?thesis by auto
  qed
  moreover have "f = zeros_like (data p0)"
    if "\<forall>(mi, n) \<in> set ?tr. grad_of mi name = None"
  proof -
    from that have "fisher_spec name j ?tr = 0" for j
      by (simp add: fisher_spec_def weighted_sq_grads_absent)
    with f(2,3) show ?thesis
      by (simp add: zeros_like_def list_eq_iff_nth_eq)
  qed
  ultimately show ?thesis
    using f(1) by blast
qed

text \<open>The claim as stated fails, for a dataset with items: a gradient that is NaN gives a
  Fisher value that is NaN, which is not a number that is not negative. Of the conditions
  above only the finiteness of the gradient fails.\<close>

theorem fisher_nonnegative_zero_without_gradient_counterexample:
  "super_processAfterTraining nan_trainer 0 [demo_batch 2] demo_w_model
     GCTaskILEWCTrainer_initTrainingStates = Inr demo_w_model \<and>
   prepareLoader nan_trainer [demo_batch 2] GCTaskILEWCTrainer_initTrainingStates
     = Inr [demo_batch 2] \<and>
   (\<Sum>b\<leftarrow>[demo_batch 2]. length (labels b)) = 2 \<and>
   length (backward_trace nan_trainer GCTaskILEWCTrainer_initTrainingStates [demo_batch 2]
             demo_w_model) = 1 \<and>
   stable_names demo_w_model
     (backward_trace nan_trainer GCTaskILEWCTrainer_initTrainingStates [demo_batch 2]
        demo_w_model) \<and>
   grads_fit demo_w_model
     (backward_trace nan_trainer GCTaskILEWCTrainer_initTrainingStates [demo_batch 2]
        demo_w_model) \<and>
   GCTaskILEWCTrainer_processAfterTraining nan_trainer 0 [demo_batch 2] demo_w_model
     GCTaskILEWCTrainer_initTrainingStates =
   (Inr [(''w'', \<lparr>data = [Fin (3 / 2)], grad = Some [NaN]\<rparr>)],
    \<lparr>fishers = [[''w'' \<mapsto> [NaN]]], params = [[''w'' \<mapsto> [Fin (3 / 2)]]]\<rparr>) \<and>
   GCClassILEWCTrainer_processAfterTraining nan_trainer 0 [demo_batch 2] demo_w_model
     GCTaskILEWCTrainer_initTrainingStates =
   (Inr [(''w'', \<lparr>data = [Fin (3 / 2)], grad = Some [NaN]\<rparr>)],
    \<lparr>fishers = [[''w'' \<mapsto> [NaN]]], params = [[''w'' \<mapsto> [Fin (3 / 2)]]]\<rparr>) \<and>
   \<not> finite_grads ''w''
     (backward_trace nan_trainer GCTaskILEWCTrainer_initTrainingStates [demo_batch 2]
        demo_w_model) \<and>
   \<not> (\<exists>q. NaN = Fin q \<and> 0 \<le> q)"
proof -
  have "\<not> finite_grads ''w'' [([(''w'', \<lparr>data = [Fin (3 / 2)], grad = Some [NaN]\<rparr>)], 2)]"
    by (simp add: finite_grads_def grad_of_def finite_tensor_def)
  moreover have "stable_names demo_w_model [([(''w'', \<lparr>data = [Fin (3 / 2)], grad = Some [NaN]\<rparr>)], 2)]"
    by (simp add: stable_names_def demo_w_model_def)
  moreover have "grads_fit demo_w_model
      [([(''w'', \<lparr>data = [Fin (3 / 2)], grad = Some [NaN]\<rparr>)], 2)]"
    by (simp add: grads_fit_def demo_w_model_def)
  moreover have "(\<Sum>b\<leftarrow>[demo_batch 2]. length (labels b)) = 2"
    by (simp add: demo_batch_def)
  moreover have "super_processAfterTraining nan_trainer 0 [demo_batch 2] demo_w_model
      GCTaskILEWCTrainer_initTrainingStates = Inr demo_w_model"
    "prepareLoader nan_trainer [demo_batch 2] GCTaskILEWCTrainer_initTrainingStates
      = Inr [demo_batch 2]"
    by (simp_all add: nan_trainer_def demo_trainer_def)
  ultimately show ?thesis
    unfolding nan_trace processAfterTraining_class_task nan_estimate
    by (simp add: GCTaskILEWCTrainer_initTrainingStates_def)
qed

theorem fisher_nonnegative_zero_without_gradient_witness:
  "stable_names demo_model
     (backward_trace (demo_trainer 3) GCTaskILEWCTrainer_initTrainingStates
        [demo_batch 3, demo_batch 5] demo_model) \<and>
   grads_fit demo_model
     (backward_trace (demo_trainer 3) GCTaskILEWCTrainer_initTrainingStates
        [demo_batch 3, demo_batch 5] demo_model) \<and>
   finite_grads ''frozen''
     (backward_trace (demo_trainer 3) GCTaskILEWCTrainer_initTrainingStates
        [demo_batch 3, demo_batch 5] demo_model) \<and>
   map (\<lambda>(mi, n). grad_of mi ''frozen'')
     (backward_trace (demo_trainer 3) GCTaskILEWCTrainer_initTrainingStates
        [demo_batch 3, demo_batch 5] demo_model) = [None, None] \<and>
   last (fishers (snd (GCTaskILEWCTrainer_processAfterTraining (demo_trainer 3) 0
      [demo_batch 3, demo_batch 5] demo_model GCTaskILEWCTrainer_initTrainingStates)))
      ''frozen'' = Some [Fin 0, Fin 0] \<and>
   last (fishers (snd (GCTaskILEWCTrainer_processAfterTraining (demo_trainer 3) 0
      [demo_batch 3, demo_batch 5] demo_model GCTaskILEWCTrainer_initTrainingStates)))
      ''w'' = Some [Fin 9]"
proof -
  let ?ts = GCTaskILEWCTrainer_initTrainingStates
  let ?bs = "[demo_batch 3, demo_batch 5]"
  let ?tr = "backward_trace (demo_trainer 3) ?ts ?bs demo_model"
  have c: "super_processAfterTraining (demo_trainer 3) 0 ?bs demo_model ?ts = Inr demo_model"
    "prepareLoader (demo_trainer 3) ?bs ?ts = Inr ?bs"
    by (simp_all add: demo_trainer_simps)
  have h: "length ?tr = length ?bs" "stable_names demo_model ?tr" "grads_fit demo_model ?tr"
    "finite_grads ''frozen'' ?tr"
    unfolding demo_trace by (simp_all add: demo_trace_hyps demo_grads_fit)
  have n: "0 < (\<Sum>b\<leftarrow>?bs. length (labels b))"
    by (simp add: demo_batch_def)
  have w: "map_of demo_model ''frozen'' = Some \<lparr>data = [Fin 7, Fin 8], grad = None\<rparr>"
    by (simp add: demo_model_def)
  have a: "map (\<lambda>(mi, n). grad_of mi ''frozen'') ?tr = [None, None]"
    unfolding demo_trace by (simp add: grad_of_def demo_model_after_def)
  from fisher_nonnegative_zero_without_gradient [OF c h n w] h(2-4) a show ?thesis
    unfolding demo_trace
    by (simp add: demo_trainer_simps demo_estimate demo_fisher_def)
qed

text \<open>
  C9. If \<open>processAfterTraining\<close> raises, the training state is exactly as it was before
  the call; and if inference or the backward pass raises on some batch, after the batches
  before it went through, the call raises that error and appends nothing (in
  \<open>GCTaskILEWCTrainer\<close> and in \<open>GCClassILEWCTrainer\<close>).
\<close>

theorem failed_estimation_appends_nothing:
  "(fst (GCTaskILEWCTrainer_processAfterTraining self tid ds m ts) = Inl e \<longrightarrow>
      snd (GCTaskILEWCTrainer_processAfterTraining self tid ds m ts) = ts) \<and>
   (super_processAfterTraining self tid ds m ts = Inr m0 \<and>
    prepareLoader self ds ts = Inr (bs1 @ b # bs2) \<and>
    GCTaskILEWCTrainer_fisher_loop self ts bs1 m0 0 (zeros_dict m0 Map.empty)
      (zeros_dict m0 Map.empty) = Inr (m1, n1, ps1, fs1) \<and>
    GCTaskILEWCTrainer_batch_backward self ts m1 b = Inl e \<longrightarrow>
      GCTaskILEWCTrainer_processAfterTraining self tid ds m ts = (Inl e, ts) \<and>
      GCClassILEWCTrainer_processAfterTraining self tid ds m ts = (Inl e, ts))"
proof -
  have "fst (GCTaskILEWCTrainer_processAfterTraining self tid ds m ts) = Inl e \<longrightarrow>
      snd (GCTaskILEWCTrainer_processAfterTraining self tid ds m ts) = ts"
    using processAfterTraining_cases [of self tid ds m ts] by auto
  moreover have "GCTaskILEWCTrainer_processAfterTraining self tid ds m ts = (Inl e, ts)"
    if "super_processAfterTraining self tid ds m ts = Inr m0"
      and "prepareLoader self ds ts = Inr (bs1 @ b # bs2)"
      and "GCTaskILEWCTrainer_fisher_loop self ts bs1 m0 0 (zeros_dict m0 Map.empty)
             (zeros_dict m0 Map.empty) = Inr (m1, n1, ps1, fs1)"
      and "GCTaskILEWCTrainer_batch_backward self ts m1 b = Inl e"
    using that by (simp add: GCTaskILEWCTrainer_processAfterTraining_def fisher_loop_append)
  ultimately show ?thesis
    by (simp add: processAfterTraining_class_task)
qed

theorem failed_estimation_appends_nothing_witness:
  "GCTaskILEWCTrainer_processAfterTraining (demo_trainer 1) 0
     [demo_batch 0, demo_batch 1] demo_model demo_history
   = (Inl (External ''no items''), demo_history) \<and>
   GCClassILEWCTrainer_processAfterTraining (demo_trainer 1) 0
     [demo_batch 0, demo_batch 1] demo_model demo_history
   = (Inl (External ''no items''), demo_history)"
  using failed_estimation_appends_nothing [of "demo_trainer 1" 0 "[demo_batch 0, demo_batch 1]" demo_model demo_history
      "External ''no items''" demo_model "[]" "demo_batch 0" "[demo_batch 1]" demo_model 0
      "zeros_dict demo_model Map.empty" "zeros_dict demo_model Map.empty"]
  by (simp add: demo_trainer_simps demo_batch_backward_empty demo_batch_def)

text \<open>
  C10. \<open>afterInference\<close> never modifies the history. On a store in which the live model and
  the history share no cell, the call leaves the two sequences of the history and every
  cell they refer to as they were (so their lengths and every stored tensor), whatever it
  writes into the model; the training state it leaves is the one before the call, which is
  also what the method on values returns. \<open>processAfterTraining\<close> writes into no cell of
  the history either, and leaves the history as it was or with one Fisher estimate and one
  snapshot appended, as the method on values says. After both calls the live model and the
  history still share no cell.
\<close>

theorem afterInference_keeps_history:
  assumes "separated st"
  shows "(case GCTaskILEWCTrainer_afterInference_store self res b st of (r, st') \<Rightarrow>
            stored_fishers st' = stored_fishers st \<and> stored_params st' = stored_params st \<and>
            (\<forall>a \<in> stored_addrs st. cells st' ! a = cells st ! a) \<and>
            history_view st' = history_view st \<and>
            history_view st' =
              snd (GCTaskILEWCTrainer_afterInference self res (live_view st) b (history_view st)) \<and>
            separated st') \<and>
         (case GCTaskILEWCTrainer_processAfterTraining_store self tid ds st of (r, st') \<Rightarrow>
            (\<forall>a \<in> stored_addrs st. cells st' ! a = cells st ! a) \<and>
            history_view st' =
              snd (GCTaskILEWCTrainer_processAfterTraining self tid ds (live_view st)
                     (history_view st)) \<and>
            (history_view st' = history_view st \<or>
             history_view st' =
               (history_view st)
                 \<lparr>fishers := fishers (history_view st) @ [last (fishers (history_view st'))],
                  params := params (history_view st) @ [last (params (history_view st'))]\<rparr>) \<and>
            separated st')"
proof -
  obtain r1 st1 where s1: "GCTaskILEWCTrainer_afterInference_store self res b st = (r1, st1)"
    by (cases "GCTaskILEWCTrainer_afterInference_store self res b st")
  obtain r2 st2 where s2: "GCTaskILEWCTrainer_processAfterTraining_store self tid ds st = (r2, st2)"
    by (cases "GCTaskILEWCTrainer_processAfterTraining_store self tid ds st")
  obtain rv ts' where v: "GCTaskILEWCTrainer_processAfterTraining self tid ds (live_view st)
      (history_view st) = (rv, ts')"
    by (cases "GCTaskILEWCTrainer_processAfterTraining self tid ds (live_view st)
      (history_view st)")
  from afterInference_store_frame [OF assms, of self res b] s1
  have a: "separated st1" "stored_fishers st1 = stored_fishers st"
    "stored_params st1 = stored_params st"
    "\<forall>a \<in> stored_addrs st. cells st1 ! a = cells st ! a"
    "history_view st1 = history_view st"
    by simp_all
  from processAfterTraining_store_refines [OF assms, of self tid ds] s2 v
  have p: "separated st2" "history_view st2 = ts'"
    "extends (cells st) (cells st2) (stored_addrs st)"
    by (simp_all add: estimate_agrees_def)
  from p(3) have p3: "\<forall>a \<in> stored_addrs st. cells st2 ! a = cells st ! a"
    by (simp add: extends_def)
  from processAfterTraining_cases [of self tid ds "live_view st" "history_view st"] v
  have "ts' = history_view st \<or>
    ts' = (history_view st)\<lparr>fishers := fishers (history_view st) @ [last (fishers ts')],
                            params := params (history_view st) @ [last (params ts')]\<rparr>"
    by auto
  with a p(1,2) p3 show ?thesis
    unfolding s1 s2 v by (simp add: afterInference_state)
qed

theorem afterInference_keeps_history_witness:
  "separated demo_store \<and> live_view demo_store = demo_w_model \<and>
   history_view demo_store = demo_history \<and>
   cells (snd (GCTaskILEWCTrainer_afterInference_store drift_trainer demo_results
                 (demo_batch 1) demo_store)) =
     [[Fin (5 / 2)], [Fin (1 / 100)], [Fin 1], [Fin (2 / 100)], [Fin 2], [Fin (3 / 2)]] \<and>
   history_view (snd (GCTaskILEWCTrainer_afterInference_store drift_trainer demo_results
                 (demo_batch 1) demo_store)) = demo_history \<and>
   history_view (snd (GCTaskILEWCTrainer_processAfterTraining_store (demo_trainer 2) 0
                 [demo_batch 3, demo_batch 5] demo_store)) =
     demo_history\<lparr>fishers := fishers demo_history @ [[''w'' \<mapsto> [Fin 4]]],
                  params := params demo_history @ [[''w'' \<mapsto> [Fin (3 / 2)]]]\<rparr>"
proof -
  from afterInference_keeps_history [OF demo_store_views(1), where self = drift_trainer
      and res = demo_results and b = "demo_batch 1"]
  have "history_view (snd (GCTaskILEWCTrainer_afterInference_store drift_trainer
      demo_results (demo_batch 1) demo_store)) = history_view demo_store"
    by (simp add: split_beta)
  moreover from afterInference_keeps_history [OF demo_store_views(1),
      where self = "demo_trainer 2" and tid = 0 and ds = "[demo_batch 3, demo_batch 5]"]
  have "history_view (snd (GCTaskILEWCTrainer_processAfterTraining_store
      (demo_trainer 2) 0 [demo_batch 3, demo_batch 5] demo_store)) =
      snd (GCTaskILEWCTrainer_processAfterTraining (demo_trainer 2) 0
        [demo_batch 3, demo_batch 5] (live_view demo_store) (history_view demo_store))"
    by (simp add: split_beta)
  moreover have "cells (snd (GCTaskILEWCTrainer_afterInference_store drift_trainer
      demo_results (demo_batch 1) demo_store)) =
      [[Fin (5 / 2)], [Fin (1 / 100)], [Fin 1], [Fin (2 / 100)], [Fin 2], [Fin (3 / 2)]]"
    unfolding drift_step by simp
  ultimately show ?thesis
    by (simp add: demo_store_views demo_w_estimate)
qed

end
